theory Spec2Isabelle
  imports Complex_Main "HOL-Library.Word"
begin

section \<open>Data model\<close>

text \<open>
  Modelled from the spec: the header la.h (the vector types V2f and V4f with their
  constructors v2f and v4f) is not among the sources. The spec describes a position and
  a UV coordinate as 2D floats and a colour as a 4-component float. A C float is read as
  the real number it denotes; where the code copies a coordinate the number is kept, and
  where it computes one the rounding is written out.
\<close>

datatype V2f = v2f (v2_x: real) (v2_y: real)

datatype V4f = v4f (v4_x: real) (v4_y: real) (v4_z: real) (v4_w: real)

subsection \<open>Floating-point and integer arithmetic of the machine\<close>

text \<open>
  A value of type float or double is the real number it denotes. An arithmetic operation
  or a conversion of the C code is the exact operation followed by the rounding of
  IEEE 754 to the nearest value of the format, ties to the even mantissa: ieee_round p
  emin rounds to a mantissa of p bits with least exponent emin (gradual underflow below
  it), for binary64 with p = 53 and emin = -1022, for binary32 with p = 24 and
  emin = -126. Infinities and NaN are not values of the model: its statements are about
  finite results within the range of the format.
\<close>

definition round_even :: "real \<Rightarrow> int" where
  "round_even x =
     (let f = \<lfloor>x\<rfloor>; d = x - of_int f
      in if d < 1 / 2 then f else if 1 / 2 < d then f + 1 else if even f then f else f + 1)"

definition ieee_round :: "nat \<Rightarrow> int \<Rightarrow> real \<Rightarrow> real" where
  "ieee_round p emin x =
     (if x = 0 then 0
      else (let e = max \<lfloor>log 2 \<bar>x\<bar>\<rfloor> emin;
                u = 2 powi (e - (int p - 1))
            in u * of_int (round_even (x / u))))"

definition to_double :: "real \<Rightarrow> real" where
  "to_double x = ieee_round 53 (- 1022) x"

definition to_float :: "real \<Rightarrow> real" where
  "to_float x = ieee_round 24 (- 126) x"

definition dbl_add :: "real \<Rightarrow> real \<Rightarrow> real" where
  "dbl_add a b = to_double (a + b)"

definition dbl_sub :: "real \<Rightarrow> real \<Rightarrow> real" where
  "dbl_sub a b = to_double (a - b)"

definition flt_add :: "real \<Rightarrow> real \<Rightarrow> real" where
  "flt_add a b = to_float (a + b)"

definition flt_mul :: "real \<Rightarrow> real \<Rightarrow> real" where
  "flt_mul a b = to_float (a * b)"

definition flt_div :: "real \<Rightarrow> real \<Rightarrow> real" where
  "flt_div a b = to_float (a / b)"

text \<open>
  A C int has 32 bits. The product of two ints is taken modulo 2^32 and read as a signed
  number (signed overflow has no defined result in C; this is the result the usual
  compilers produce). size_t has 64 bits; size_t_of_int is the conversion of an int to
  it.
\<close>

definition c_int_mul :: "int \<Rightarrow> int \<Rightarrow> int" where
  "c_int_mul a b = sint (word_of_int a * word_of_int b :: 32 word)"

definition size_t_of_int :: "int \<Rightarrow> int" where
  "size_t_of_int n = uint (word_of_int n :: 64 word)"

text \<open>The struct Vertex of main.c.\<close>

record Vertex =
  pos :: V2f
  uv :: V2f
  color :: V4f

text \<open>The enum Uniform and the table uniform_names.\<close>

datatype Uniform = RESOLUTION_UNIFORM | TIME_UNIFORM | MOUSE_UNIFORM

fun uniform_names :: "Uniform \<Rightarrow> string" where
  "uniform_names RESOLUTION_UNIFORM = ''resolution''"
| "uniform_names TIME_UNIFORM = ''time''"
| "uniform_names MOUSE_UNIFORM = ''mouse''"

definition VERTEX_BUF_CAP :: nat where
  "VERTEX_BUF_CAP = 8 * 1024"

text \<open>
  The struct Renderer. The array vertex_buf is a function from the index to the vertex
  stored there (only the indices below VERTEX_BUF_CAP exist in the C array); GL object
  names are natural numbers, uniform locations are integers.
\<close>

record Renderer =
  vao :: nat
  vbo :: nat
  program_failed :: bool
  program :: nat
  uniforms :: "Uniform \<Rightarrow> int"
  vertex_buf :: "nat \<Rightarrow> Vertex"
  vertex_buf_sz :: nat
  texture :: nat

text \<open>The zero-initialised global_renderer.\<close>

definition zero_vertex :: Vertex where
  "zero_vertex = \<lparr>pos = v2f 0 0, uv = v2f 0 0, color = v4f 0 0 0 0\<rparr>"

definition global_renderer_init :: Renderer where
  "global_renderer_init =
     \<lparr>vao = 0, vbo = 0, program_failed = False, program = 0, uniforms = (\<lambda>_. 0),
      vertex_buf = (\<lambda>_. zero_vertex), vertex_buf_sz = 0, texture = 0\<rparr>"

text \<open>
  What ends the process: a failed assert (abort) or a call of exit with its status.
\<close>

datatype Fatal = Assertion_Failed | Exit nat

text \<open>Sequencing of steps that may end the process: the first failure wins.\<close>

definition and_then :: "Fatal + 'a \<Rightarrow> ('a \<Rightarrow> Fatal + 'b) \<Rightarrow> Fatal + 'b" where
  "and_then m f = (case m of Inl e \<Rightarrow> Inl e | Inr v \<Rightarrow> f v)"

section \<open>Geometry batch\<close>

text \<open>
  renderer_push_vertex: the assert guards the three field writes into the slot
  vertex_buf[vertex_buf_sz] and the increment of the size.
\<close>

definition renderer_push_vertex :: "Renderer \<Rightarrow> V2f \<Rightarrow> V2f \<Rightarrow> V4f \<Rightarrow> Fatal + Renderer" where
  "renderer_push_vertex r p t c =
     (if vertex_buf_sz r < VERTEX_BUF_CAP then
        (let i = vertex_buf_sz r;
             b1 = (vertex_buf r)(i := (vertex_buf r i)\<lparr>pos := p\<rparr>);
             b2 = b1(i := (b1 i)\<lparr>uv := t\<rparr>);
             b3 = b2(i := (b2 i)\<lparr>color := c\<rparr>)
         in Inr (r\<lparr>vertex_buf := b3, vertex_buf_sz := vertex_buf_sz r + 1\<rparr>))
      else Inl Assertion_Failed)"

text \<open>renderer_push_quad: the four corners, then six pushes in the order of the source.\<close>

definition renderer_push_quad :: "Renderer \<Rightarrow> V2f \<Rightarrow> V2f \<Rightarrow> V4f \<Rightarrow> Fatal + Renderer" where
  "renderer_push_quad r p1 p2 col =
     (let a = p1;
          b = v2f (v2_x p2) (v2_y p1);
          c = v2f (v2_x p1) (v2_y p2);
          d = p2
      in and_then (renderer_push_vertex r a (v2f 0 0) col) (\<lambda>r.
         and_then (renderer_push_vertex r b (v2f 1 0) col) (\<lambda>r.
         and_then (renderer_push_vertex r c (v2f 0 1) col) (\<lambda>r.
         and_then (renderer_push_vertex r b (v2f 1 0) col) (\<lambda>r.
         and_then (renderer_push_vertex r c (v2f 0 1) col) (\<lambda>r.
         renderer_push_vertex r d (v2f 1 1) col))))))"

text \<open>
  renderer_push_checker_board: the two nested for loops visit the cells row by row;
  the loop body is one renderer_push_quad. The coordinates are computed in float: the
  ints are converted to float, and the division, the products and the sums are rounded.
  No cell is visited when grid_size is not positive, so the division by grid_size is
  never used then.
\<close>

definition checker_cell :: "int \<Rightarrow> Renderer \<Rightarrow> int \<times> int \<Rightarrow> Fatal + Renderer" where
  "checker_cell grid_size r cell =
     (let cell_width = flt_div 2 (to_float (real_of_int grid_size));
          cell_height = flt_div 2 (to_float (real_of_int grid_size));
          cx = fst cell; cy = snd cell
      in renderer_push_quad r
           (v2f (flt_add (- 1) (flt_mul (to_float (real_of_int cx)) cell_width))
                (flt_add (- 1) (flt_mul (to_float (real_of_int cy)) cell_height)))
           (v2f (flt_add (- 1) (flt_mul (to_float (real_of_int (cx + 1))) cell_width))
                (flt_add (- 1) (flt_mul (to_float (real_of_int (cy + 1))) cell_height)))
           (if (cx + cy) mod 2 = 0 then v4f 1 0 0 1 else v4f 0 0 0 1))"

fun push_cells :: "int \<Rightarrow> Renderer \<Rightarrow> (int \<times> int) list \<Rightarrow> Fatal + Renderer" where
  "push_cells grid_size r [] = Inr r"
| "push_cells grid_size r (cell # cells) =
     and_then (checker_cell grid_size r cell) (\<lambda>r'. push_cells grid_size r' cells)"

definition renderer_push_checker_board :: "Renderer \<Rightarrow> int \<Rightarrow> Fatal + Renderer" where
  "renderer_push_checker_board r grid_size =
     push_cells grid_size r
       (concat (map (\<lambda>cy. map (\<lambda>cx. (cx, cy)) [0..grid_size - 1]) [0..grid_size - 1]))"

section \<open>The outside world\<close>

text \<open>
  Everything the program does to the outside world is recorded as the list of events it
  issues, in order: the calls of the graphics API with their arguments, and the lines
  written to stderr and stdout (each a message with its arguments).
\<close>

datatype Shader_Type = GL_VERTEX_SHADER | GL_FRAGMENT_SHADER

fun shader_type_as_cstr :: "Shader_Type \<Rightarrow> string" where
  "shader_type_as_cstr GL_VERTEX_SHADER = ''GL_VERTEX_SHADER''"
| "shader_type_as_cstr GL_FRAGMENT_SHADER = ''GL_FRAGMENT_SHADER''"

datatype Message =
    Could_Not_Compile string string
  | Failed_To_Read_File "string option"
  | Failed_To_Compile_File "string option"
  | Program_Linking string
  | Could_Not_Load_Conf string
  | Vertex_Path string
  | Fragment_Path string
  | Texture_Path string
  | Unsupported_Key string int int string
  | Could_Not_Load_Image "string option"
  | Successfully_Reload
  | Saving_Screenshot
  | Could_Not_Allocate_Pixels
  | Could_Not_Save_Screenshot

datatype Tex_Param =
    GL_TEXTURE_MIN_FILTER | GL_TEXTURE_MAG_FILTER | GL_TEXTURE_WRAP_S | GL_TEXTURE_WRAP_T

datatype Tex_Value = GL_LINEAR | GL_CLAMP_TO_BORDER

type_synonym Image = "int \<times> int \<times> nat list"

datatype Event =
    GlCreateShader Shader_Type
  | GlShaderSource nat string
  | GlCompileShader nat
  | GlCreateProgram
  | GlAttachShader nat nat
  | GlLinkProgram nat
  | GlDeleteShader nat
  | GlDeleteProgram nat
  | GlUseProgram nat
  | GlGetUniformLocation nat string
  | GlClearColor real real real real
  | GlClear
  | GlUniform2f int real real
  | GlUniform1f int real
  | GlDrawArraysInstanced nat nat nat
  | GlGenVertexArrays
  | GlBindVertexArray nat
  | GlGenBuffers
  | GlBindBuffer nat
  | GlBufferData nat
  | GlEnableVertexAttribArray nat
  | GlVertexAttribPointer nat nat nat nat
  | GlBufferSubData nat nat "Vertex list"
  | GlDeleteTextures nat
  | GlGenTextures
  | GlBindTexture nat
  | GlTexParameteri Tex_Param Tex_Value
  | GlTexImage2D int int "nat list"
  | StbiImageFree
  | GlReadPixels int int
  | StbiWritePng string int int int
  | GlfwSwapBuffers
  | GlfwPollEvents
  | Stderr Message
  | Stdout Message

text \<open>
  What the outside world answers. A path is the C string a pointer leads to, or None
  for the null pointer; read_file is the content of the file as
  slurp_file_into_malloced_cstr reads it (None when opening, seeking, allocating or
  reading fails); the gl fields are the answers of the graphics API (the names it
  hands out, the compile and link status it reports, its diagnostics, its uniform
  locations); stbi_load is the decoded image (width, height, pixels) or None;
  glfw_window_size (two ints) and glfw_cursor_pos (two doubles) are what the windowing
  library reports; malloc_ok says whether an allocation of that many bytes succeeds.
\<close>

record Env =
  read_file :: "string option \<Rightarrow> string option"
  gl_create_shader :: "Shader_Type \<Rightarrow> nat"
  gl_compile_status :: "Shader_Type \<Rightarrow> string \<Rightarrow> bool"
  gl_shader_info_log :: "Shader_Type \<Rightarrow> string \<Rightarrow> string"
  gl_create_program :: nat
  gl_link_status :: "nat \<Rightarrow> nat \<Rightarrow> bool"
  gl_program_info_log :: "nat \<Rightarrow> nat \<Rightarrow> string"
  gl_uniform_location :: "nat \<Rightarrow> string \<Rightarrow> int"
  gl_gen_texture :: nat
  gl_gen_vertex_array :: nat
  gl_gen_buffer :: nat
  stbi_load :: "string option \<Rightarrow> Image option"
  glfw_window_size :: "int \<times> int"
  glfw_cursor_pos :: "real \<times> real"
  malloc_ok :: "int \<Rightarrow> bool"
  stbi_write_png_ok :: bool

section \<open>C strings and the render configuration\<close>

definition NUL :: char where
  "NUL = CHR 0x00"

definition NL :: char where
  "NL = CHR 0x0A"

text \<open>The C string that starts at offset p of a byte buffer: the bytes up to the first NUL.\<close>

definition cstr_at :: "char list \<Rightarrow> nat \<Rightarrow> string" where
  "cstr_at mem p = takeWhile (\<lambda>c. c \<noteq> NUL) (drop p mem)"

text \<open>
  slurp_file_into_malloced_cstr: the buffer holds the bytes of the file and one
  terminating NUL; every failure is the null pointer.
\<close>

definition slurp_file_into_malloced_cstr :: "Env \<Rightarrow> string option \<Rightarrow> char list option" where
  "slurp_file_into_malloced_cstr env file_path =
     (case read_file env file_path of
        None \<Rightarrow> None
      | Some bytes \<Rightarrow> Some (bytes @ [NUL]))"

text \<open>
  The globals render_conf, vert_path, frag_path and texture_path. render_conf is the
  buffer (None: the null pointer); the three paths point into it, so each is an offset
  into the buffer (None: the null pointer).
\<close>

record Conf =
  render_conf :: "char list option"
  vert_path :: "nat option"
  frag_path :: "nat option"
  texture_path :: "nat option"

definition conf_init :: Conf where
  "conf_init = \<lparr>render_conf = None, vert_path = None, frag_path = None, texture_path = None\<rparr>"

text \<open>The C string a path pointer leads to, as the library functions read it.\<close>

definition path_string :: "Conf \<Rightarrow> nat option \<Rightarrow> string option" where
  "path_string cf p =
     (case p of
        None \<Rightarrow> None
      | Some off \<Rightarrow> (case render_conf cf of None \<Rightarrow> None | Some mem \<Rightarrow> Some (cstr_at mem off)))"

subsection \<open>String views\<close>

text \<open>
  Modelled from the spec: the header sv.h (String_View and the functions sv_from_cstr,
  sv_chop_by_delim, sv_trim_left, sv_trim_right, sv_trim, sv_eq) is not among the
  sources. The spec describes them as plain text splitting that extracts trimmed
  substring tokens from a line. A view is a count and a pointer, here an offset into
  the buffer it views; the functions scan the buffer the way their names say:
  sv_trim_left skips leading white space, sv_trim_right drops trailing white space,
  sv_chop_by_delim cuts the view at the first delimiter, returns the part before it and
  leaves the part after it (all of the view is cut off when it has no delimiter).
\<close>

record String_View =
  sv_count :: nat
  sv_data :: nat

definition sv_chars :: "char list \<Rightarrow> String_View \<Rightarrow> string" where
  "sv_chars mem sv = take (sv_count sv) (drop (sv_data sv) mem)"

definition isspace :: "char \<Rightarrow> bool" where
  "isspace c = (c = CHR '' '' \<or> c = CHR 0x09 \<or> c = CHR 0x0A \<or> c = CHR 0x0B \<or> c = CHR 0x0C \<or> c = CHR 0x0D)"

definition sv_from_cstr :: "char list \<Rightarrow> nat \<Rightarrow> String_View" where
  "sv_from_cstr mem p = \<lparr>sv_count = length (cstr_at mem p), sv_data = p\<rparr>"

function trim_left_scan :: "char list \<Rightarrow> String_View \<Rightarrow> nat \<Rightarrow> nat" where
  "trim_left_scan mem sv i =
     (if i < sv_count sv \<and> isspace (mem ! (sv_data sv + i))
      then trim_left_scan mem sv (i + 1) else i)"
  by pat_completeness auto
termination
  by (relation "measure (\<lambda>(mem, sv, i). sv_count sv - i)") auto

declare trim_left_scan.simps [simp del]

definition sv_trim_left :: "char list \<Rightarrow> String_View \<Rightarrow> String_View" where
  "sv_trim_left mem sv =
     (let i = trim_left_scan mem sv 0
      in \<lparr>sv_count = sv_count sv - i, sv_data = sv_data sv + i\<rparr>)"

function trim_right_scan :: "char list \<Rightarrow> String_View \<Rightarrow> nat \<Rightarrow> nat" where
  "trim_right_scan mem sv i =
     (if i < sv_count sv \<and> isspace (mem ! (sv_data sv + (sv_count sv - 1 - i)))
      then trim_right_scan mem sv (i + 1) else i)"
  by pat_completeness auto
termination
  by (relation "measure (\<lambda>(mem, sv, i). sv_count sv - i)") auto

declare trim_right_scan.simps [simp del]

definition sv_trim_right :: "char list \<Rightarrow> String_View \<Rightarrow> String_View" where
  "sv_trim_right mem sv =
     (let i = trim_right_scan mem sv 0
      in \<lparr>sv_count = sv_count sv - i, sv_data = sv_data sv\<rparr>)"

definition sv_trim :: "char list \<Rightarrow> String_View \<Rightarrow> String_View" where
  "sv_trim mem sv = sv_trim_right mem (sv_trim_left mem sv)"

function chop_scan :: "char list \<Rightarrow> String_View \<Rightarrow> char \<Rightarrow> nat \<Rightarrow> nat" where
  "chop_scan mem sv delim i =
     (if i < sv_count sv \<and> mem ! (sv_data sv + i) \<noteq> delim
      then chop_scan mem sv delim (i + 1) else i)"
  by pat_completeness auto
termination
  by (relation "measure (\<lambda>(mem, sv, delim, i). sv_count sv - i)") auto

declare chop_scan.simps [simp del]

text \<open>
  sv_chop_by_delim updates the view it is given through a pointer: the result is the
  pair of the chopped part and the updated view.
\<close>

definition sv_chop_by_delim :: "char list \<Rightarrow> String_View \<Rightarrow> char \<Rightarrow> String_View \<times> String_View" where
  "sv_chop_by_delim mem sv delim =
     (let i = chop_scan mem sv delim 0;
          result = \<lparr>sv_count = i, sv_data = sv_data sv\<rparr>
      in if i < sv_count sv
         then (result, \<lparr>sv_count = sv_count sv - (i + 1), sv_data = sv_data sv + (i + 1)\<rparr>)
         else (result, \<lparr>sv_count = sv_count sv - i, sv_data = sv_data sv + i\<rparr>))"

text \<open>sv_eq against a string literal: equal counts and equal bytes.\<close>

definition sv_eq :: "char list \<Rightarrow> String_View \<Rightarrow> string \<Rightarrow> bool" where
  "sv_eq mem sv lit = (sv_count sv = length lit \<and> sv_chars mem sv = lit)"

subsection \<open>reload_render_conf\<close>

text \<open>
  The state of the scanning loop: the buffer render_conf (the loop writes into it), the
  three path pointers and what has been printed.
\<close>

record Conf_Scan =
  scan_mem :: "char list"
  scan_vert :: "nat option"
  scan_frag :: "nat option"
  scan_texture :: "nat option"
  scan_out :: "Event list"

text \<open>
  The body of the for loop for one chopped line. The byte behind the value is
  overwritten with NUL in place, so that the value is a C string; the keys are compared
  after that write, as in the source. The column of a warning is the pointer difference
  key.data - line_start; the row is the int counter of the loop, a 32-bit word that is
  printed as a signed number.
\<close>

definition conf_line :: "string \<Rightarrow> 32 word \<Rightarrow> String_View \<Rightarrow> Conf_Scan \<Rightarrow> Conf_Scan" where
  "conf_line render_conf_path row line0 st =
     (let line_start = sv_data line0;
          line = sv_trim_left (scan_mem st) line0
      in if sv_count line > 0 \<and> scan_mem st ! sv_data line \<noteq> CHR ''#'' then
           (let chopped = sv_chop_by_delim (scan_mem st) line (CHR ''='');
                key = sv_trim (scan_mem st) (fst chopped);
                val = sv_trim_left (scan_mem st) (snd chopped);
                mem' = (scan_mem st)[sv_data val + sv_count val := NUL]
            in if sv_eq mem' key ''vert'' then
                 st\<lparr>scan_mem := mem', scan_vert := Some (sv_data val),
                    scan_out := scan_out st @ [Stdout (Vertex_Path (cstr_at mem' (sv_data val)))]\<rparr>
               else if sv_eq mem' key ''frag'' then
                 st\<lparr>scan_mem := mem', scan_frag := Some (sv_data val),
                    scan_out := scan_out st @ [Stdout (Fragment_Path (cstr_at mem' (sv_data val)))]\<rparr>
               else if sv_eq mem' key ''texture'' then
                 st\<lparr>scan_mem := mem', scan_texture := Some (sv_data val),
                    scan_out := scan_out st @ [Stdout (Texture_Path (cstr_at mem' (sv_data val)))]\<rparr>
               else
                 st\<lparr>scan_mem := mem',
                    scan_out := scan_out st @
                      [Stdout (Unsupported_Key render_conf_path (sint row)
                                 (int (sv_data key) - int line_start) (sv_chars mem' key))]\<rparr>)
         else st)"

lemma sv_chop_by_delim_rest_less:
  "0 < sv_count sv \<Longrightarrow> sv_count (snd (sv_chop_by_delim mem sv delim)) < sv_count sv"
  by (auto simp: sv_chop_by_delim_def Let_def)

text \<open>
  The for loop: one line is chopped off the content per round, the row counts up (and
  wraps around after 2^31 - 1, as a 32-bit int does on the usual machines).
\<close>

function conf_loop :: "string \<Rightarrow> 32 word \<Rightarrow> String_View \<Rightarrow> Conf_Scan \<Rightarrow> Conf_Scan" where
  "conf_loop render_conf_path row content st =
     (if sv_count content > 0 then
        (let chopped = sv_chop_by_delim (scan_mem st) content NL
         in conf_loop render_conf_path (row + 1) (snd chopped)
              (conf_line render_conf_path row (fst chopped) st))
      else st)"
  by pat_completeness auto
termination
  by (relation "measure (\<lambda>(p, row, content, st). sv_count content)")
     (auto simp: sv_chop_by_delim_rest_less)

declare conf_loop.simps [simp del]

text \<open>
  reload_render_conf: the old buffer is freed, the file is read (exit(1) when that
  fails), the three paths are reset to the null pointer and the loop scans the content.
  The result is the new state of the four globals and what was printed.
\<close>

definition reload_render_conf :: "Env \<Rightarrow> string \<Rightarrow> Conf \<Rightarrow> Fatal + (Conf \<times> Event list)" where
  "reload_render_conf env render_conf_path cf =
     (case slurp_file_into_malloced_cstr env (Some render_conf_path) of
        None \<Rightarrow> Inl (Exit 1)
      | Some mem \<Rightarrow>
          (let content = sv_from_cstr mem 0;
               st = conf_loop render_conf_path 0 content
                      \<lparr>scan_mem = mem, scan_vert = None, scan_frag = None,
                       scan_texture = None, scan_out = []\<rparr>
           in Inr (\<lparr>render_conf = Some (scan_mem st), vert_path = scan_vert st,
                    frag_path = scan_frag st, texture_path = scan_texture st\<rparr>,
                   scan_out st)))"

section \<open>Shader program cache\<close>

text \<open>
  compile_shader_source: the result is the returned flag, the shader name written
  through the pointer, and the events.
\<close>

definition compile_shader_source :: "Env \<Rightarrow> string \<Rightarrow> Shader_Type \<Rightarrow> bool \<times> nat \<times> Event list" where
  "compile_shader_source env source shader_type =
     (let shader = gl_create_shader env shader_type;
          evs = [GlCreateShader shader_type, GlShaderSource shader source, GlCompileShader shader];
          compiled = gl_compile_status env shader_type source
      in if \<not> compiled then
           (False, shader,
            evs @ [Stderr (Could_Not_Compile (shader_type_as_cstr shader_type)
                             (gl_shader_info_log env shader_type source))])
         else (True, shader, evs))"

text \<open>
  compile_shader_file: when the file cannot be read the shader name behind the pointer
  keeps the value it had (the argument shader0).
\<close>

definition compile_shader_file :: "Env \<Rightarrow> string option \<Rightarrow> Shader_Type \<Rightarrow> nat \<Rightarrow> bool \<times> nat \<times> Event list" where
  "compile_shader_file env file_path shader_type shader0 =
     (case slurp_file_into_malloced_cstr env file_path of
        None \<Rightarrow> (False, shader0, [Stderr (Failed_To_Read_File file_path)])
      | Some source \<Rightarrow>
          (case compile_shader_source env (cstr_at source 0) shader_type of
             (ok, shader, evs) \<Rightarrow>
               if \<not> ok then (False, shader, evs @ [Stderr (Failed_To_Compile_File file_path)])
               else (True, shader, evs)))"

text \<open>
  link_program: the link status is read and only decides whether the diagnostic is
  printed. The function ends with \<^verbatim>\<open>return program;\<close>, the pointer
  argument converted to bool; its only caller passes the address of the field program
  of the renderer, which is not null, so the returned flag is true whatever the link
  status is.
\<close>

definition link_program :: "Env \<Rightarrow> nat \<Rightarrow> nat \<Rightarrow> bool \<times> nat \<times> Event list" where
  "link_program env vert_shader frag_shader =
     (let prog = gl_create_program env;
          evs = [GlCreateProgram, GlAttachShader prog vert_shader,
                 GlAttachShader prog frag_shader, GlLinkProgram prog];
          linked = gl_link_status env vert_shader frag_shader;
          evs' = (if \<not> linked
                  then evs @ [Stderr (Program_Linking (gl_program_info_log env vert_shader frag_shader))]
                  else evs)
      in (True, prog, evs' @ [GlDeleteShader vert_shader, GlDeleteShader frag_shader]))"

text \<open>load_shader_program: program0 is the value behind the pointer before the call.\<close>

definition load_shader_program :: "Env \<Rightarrow> string option \<Rightarrow> string option \<Rightarrow> nat \<Rightarrow> bool \<times> nat \<times> Event list" where
  "load_shader_program env vertex_file_path fragment_file_path program0 =
     (case compile_shader_file env vertex_file_path GL_VERTEX_SHADER 0 of
        (ok_vert, vert, evs1) \<Rightarrow>
          if \<not> ok_vert then (False, program0, evs1)
          else
            (case compile_shader_file env fragment_file_path GL_FRAGMENT_SHADER 0 of
               (ok_frag, frag, evs2) \<Rightarrow>
                 if \<not> ok_frag then (False, program0, evs1 @ evs2)
                 else
                   (case link_program env vert frag of
                      (ok_link, prog, evs3) \<Rightarrow>
                        if \<not> ok_link then (False, prog, evs1 @ evs2 @ evs3)
                        else (True, prog, evs1 @ evs2 @ evs3))))"

definition all_uniforms :: "Uniform list" where
  "all_uniforms = [RESOLUTION_UNIFORM, TIME_UNIFORM, MOUSE_UNIFORM]"

definition renderer_reload_shaders :: "Env \<Rightarrow> Conf \<Rightarrow> Renderer \<Rightarrow> Renderer \<times> Event list" where
  "renderer_reload_shaders env cf r =
     (let evs0 = [GlDeleteProgram (program r), GlClearColor 1 0 0 1];
          r1 = r\<lparr>program_failed := True\<rparr>
      in case load_shader_program env (path_string cf (vert_path cf))
                (path_string cf (frag_path cf)) (program r1) of
           (ok, prog, evs1) \<Rightarrow>
             if \<not> ok then (r1\<lparr>program := prog\<rparr>, evs0 @ evs1)
             else
               (let r2 = r1\<lparr>program := prog\<rparr>;
                    r3 = fold (\<lambda>index q. q\<lparr>uniforms := (uniforms q)
                                 (index := gl_uniform_location env (program q) (uniform_names index))\<rparr>)
                           all_uniforms r2;
                    evs2 = GlUseProgram prog #
                           map (\<lambda>index. GlGetUniformLocation prog (uniform_names index)) all_uniforms
                in (r3\<lparr>program_failed := False\<rparr>,
                    evs0 @ evs1 @ evs2 @ [GlClearColor 0 0 0 0, Stdout Successfully_Reload])))"

section \<open>Texture slot\<close>

definition renderer_reload_textures :: "Env \<Rightarrow> Conf \<Rightarrow> Renderer \<Rightarrow> Renderer \<times> Event list" where
  "renderer_reload_textures env cf r =
     (case stbi_load env (path_string cf (texture_path cf)) of
        None \<Rightarrow> (r, [Stderr (Could_Not_Load_Image (path_string cf (texture_path cf)))])
      | Some (texture_width, texture_height, texture_pixels) \<Rightarrow>
          (let t = gl_gen_texture env
           in (r\<lparr>texture := t\<rparr>,
               [GlDeleteTextures (texture r), GlGenTextures, GlBindTexture t,
                GlTexParameteri GL_TEXTURE_MIN_FILTER GL_LINEAR,
                GlTexParameteri GL_TEXTURE_MAG_FILTER GL_LINEAR,
                GlTexParameteri GL_TEXTURE_WRAP_S GL_CLAMP_TO_BORDER,
                GlTexParameteri GL_TEXTURE_WRAP_T GL_CLAMP_TO_BORDER,
                GlTexImage2D texture_width texture_height texture_pixels,
                StbiImageFree])))"

section \<open>GPU buffer binding\<close>

text \<open>
  renderer_sync: one glBufferSubData at offset 0 of sizeof(Vertex) * vertex_buf_sz
  bytes read from the start of vertex_buf. A Vertex is eight floats, 32 bytes; the
  event carries the byte count and the vertices that lie in those bytes.
\<close>

definition sizeof_Vertex :: nat where
  "sizeof_Vertex = 32"

definition renderer_sync :: "Renderer \<Rightarrow> Event list" where
  "renderer_sync r =
     (let size = sizeof_Vertex * vertex_buf_sz r
      in [GlBufferSubData 0 size (map (vertex_buf r) [0 ..< size div sizeof_Vertex])])"

text \<open>
  renderer_init: one vertex array and one vertex buffer of the size of the whole array
  vertex_buf, and the three attributes at the offsets of the fields of Vertex.
\<close>

definition renderer_init :: "Env \<Rightarrow> Renderer \<Rightarrow> Renderer \<times> Event list" where
  "renderer_init env r =
     (let a = gl_gen_vertex_array env; b = gl_gen_buffer env
      in (r\<lparr>vao := a, vbo := b\<rparr>,
          [GlGenVertexArrays, GlBindVertexArray a, GlGenBuffers, GlBindBuffer b,
           GlBufferData (sizeof_Vertex * VERTEX_BUF_CAP),
           GlEnableVertexAttribArray 0, GlVertexAttribPointer 0 2 sizeof_Vertex 0,
           GlEnableVertexAttribArray 1, GlVertexAttribPointer 1 2 sizeof_Vertex 8,
           GlEnableVertexAttribArray 2, GlVertexAttribPointer 2 4 sizeof_Vertex 16]))"

section \<open>Input and the frame loop\<close>

text \<open>
  The process-wide state: the globals time and pause, the renderer and the render
  configuration. The C double is read as the real number it denotes; the additions and
  subtractions on it are those of binary64.
\<close>

record App =
  time :: real
  pause :: bool
  global_renderer :: Renderer
  conf :: Conf

definition app_init :: App where
  "app_init = \<lparr>time = 0, pause = False, global_renderer = global_renderer_init, conf = conf_init\<rparr>"

text \<open>MANUAL_TIME_STEP is the double that the literal 0.1 denotes.\<close>

definition MANUAL_TIME_STEP :: real where
  "MANUAL_TIME_STEP = to_double (1 / 10)"

datatype Key =
    GLFW_KEY_F5 | GLFW_KEY_F6 | GLFW_KEY_SPACE | GLFW_KEY_Q | GLFW_KEY_LEFT | GLFW_KEY_RIGHT
  | GLFW_KEY_OTHER

datatype Action = GLFW_RELEASE | GLFW_PRESS | GLFW_REPEAT

text \<open>
  The first if/else chain of key_callback. The flag of the result says that the
  callback has returned from inside the chain (the screenshot branch does when the
  allocation fails).
\<close>

definition key_branch :: "Env \<Rightarrow> Key \<Rightarrow> App \<Rightarrow> Fatal + (bool \<times> App \<times> Event list)" where
  "key_branch env key ap =
     (if key = GLFW_KEY_F5 then
        (case reload_render_conf env ''render.conf'' (conf ap) of
           Inl e \<Rightarrow> Inl e
         | Inr (cf, evs0) \<Rightarrow>
             (case renderer_reload_textures env cf (global_renderer ap) of
                (r1, evs1) \<Rightarrow>
                  (case renderer_reload_shaders env cf r1 of
                     (r2, evs2) \<Rightarrow>
                       Inr (False, ap\<lparr>global_renderer := r2, conf := cf\<rparr>, evs0 @ evs1 @ evs2))))
      else if key = GLFW_KEY_F6 then
        (case glfw_window_size env of
           (width, height) \<Rightarrow>
             if \<not> malloc_ok env (size_t_of_int (c_int_mul (c_int_mul 4 width) height)) then
               Inr (True, ap, [Stdout Saving_Screenshot, Stderr Could_Not_Allocate_Pixels])
             else
               Inr (False, ap,
                    [Stdout Saving_Screenshot, GlReadPixels width height,
                     StbiWritePng ''screenshot.png'' width height (c_int_mul width 4)] @
                    (if \<not> stbi_write_png_ok env then [Stderr Could_Not_Save_Screenshot] else [])))
      else if key = GLFW_KEY_SPACE then Inr (False, ap\<lparr>pause := \<not> pause ap\<rparr>, [])
      else if key = GLFW_KEY_Q then Inl (Exit 1)
      else Inr (False, ap, []))"

definition key_callback :: "Env \<Rightarrow> Key \<Rightarrow> Action \<Rightarrow> App \<Rightarrow> Fatal + (App \<times> Event list)" where
  "key_callback env key action ap =
     (if action = GLFW_PRESS then
        (case key_branch env key ap of
           Inl e \<Rightarrow> Inl e
         | Inr (returned, ap1, evs) \<Rightarrow>
             if returned then Inr (ap1, evs)
             else if pause ap1 then
               (if key = GLFW_KEY_LEFT then
                  Inr (ap1\<lparr>time := dbl_sub (time ap1) MANUAL_TIME_STEP\<rparr>, evs)
                else if key = GLFW_KEY_RIGHT then
                  Inr (ap1\<lparr>time := dbl_add (time ap1) MANUAL_TIME_STEP\<rparr>, evs)
                else Inr (ap1, evs))
             else Inr (ap1, evs))
      else Inr (ap, []))"

text \<open>glfwPollEvents delivers the pending key events to key_callback, one after the other.\<close>

fun poll_events :: "Env \<Rightarrow> (Key \<times> Action) list \<Rightarrow> App \<Rightarrow> Fatal + (App \<times> Event list)" where
  "poll_events env [] ap = Inr (ap, [])"
| "poll_events env ((key, action) # rest) ap =
     (case key_callback env key action ap of
        Inl e \<Rightarrow> Inl e
      | Inr (ap1, evs1) \<Rightarrow>
          (case poll_events env rest ap1 of
             Inl e \<Rightarrow> Inl e
           | Inr (ap2, evs2) \<Rightarrow> Inr (ap2, evs1 @ evs2)))"

text \<open>
  The drawing part of one round of the loop of main. The arguments of the uniforms are
  cast to GLfloat, a float: width and height from int, time and xpos from double, and
  height - ypos is a subtraction in double before the cast.
\<close>

definition draw_frame :: "Env \<Rightarrow> App \<Rightarrow> Event list" where
  "draw_frame env ap =
     GlClear #
     (if \<not> program_failed (global_renderer ap) then
        (case glfw_window_size env of
           (width, height) \<Rightarrow>
             (case glfw_cursor_pos env of
                (xpos, ypos) \<Rightarrow>
                  [GlUniform2f (uniforms (global_renderer ap) RESOLUTION_UNIFORM)
                     (to_float (real_of_int width)) (to_float (real_of_int height)),
                   GlUniform1f (uniforms (global_renderer ap) TIME_UNIFORM) (to_float (time ap)),
                   GlUniform2f (uniforms (global_renderer ap) MOUSE_UNIFORM)
                     (to_float xpos) (to_float (dbl_sub (real_of_int height) ypos)),
                   GlDrawArraysInstanced 0 (vertex_buf_sz (global_renderer ap)) 1]))
      else [])"

text \<open>
  The clock part of one round: cur_time is what glfwGetTime answers after the events
  were polled; the state of the loop is the process state and the local prev_time.
\<close>

definition advance_clock :: "real \<Rightarrow> App \<times> real \<Rightarrow> App \<times> real" where
  "advance_clock cur_time s =
     (case s of
        (ap, prev_time) \<Rightarrow>
          ((if \<not> pause ap
            then ap\<lparr>time := dbl_add (time ap) (dbl_sub cur_time prev_time)\<rparr> else ap),
           cur_time))"

text \<open>One round of the while loop of main: draw, swap, poll the events, advance the clock.\<close>

definition main_loop_body :: "Env \<Rightarrow> (Key \<times> Action) list \<Rightarrow> real \<Rightarrow> App \<times> real \<Rightarrow> Fatal + ((App \<times> real) \<times> Event list)" where
  "main_loop_body env keys cur_time s =
     (case s of
        (ap, prev_time) \<Rightarrow>
          (case poll_events env keys ap of
             Inl e \<Rightarrow> Inl e
           | Inr (ap1, evs) \<Rightarrow>
               Inr (advance_clock cur_time (ap1, prev_time),
                    draw_frame env ap @ [GlfwSwapBuffers, GlfwPollEvents] @ evs)))"

text \<open>
  The while loop of main over the rounds it runs before the window is closed: each round
  comes with the key events it polls and with the time that glfwGetTime answers.
\<close>

fun main_loop :: "Env \<Rightarrow> ((Key \<times> Action) list \<times> real) list \<Rightarrow> App \<times> real \<Rightarrow> Fatal + ((App \<times> real) \<times> Event list)" where
  "main_loop env [] s = Inr (s, [])"
| "main_loop env ((keys, cur_time) # frames) s =
     (case main_loop_body env keys cur_time s of
        Inl e \<Rightarrow> Inl e
      | Inr (s1, evs1) \<Rightarrow>
          (case main_loop env frames s1 of
             Inl e \<Rightarrow> Inl e
           | Inr (s2, evs2) \<Rightarrow> Inr (s2, evs1 @ evs2)))"

text \<open>
  The two statements before the loop: time is set to what glfwGetTime answers (t0) and
  the local prev_time starts at 0.0.
\<close>

definition main_clock_init :: "real \<Rightarrow> App \<Rightarrow> App \<times> real" where
  "main_clock_init t0 ap = (ap\<lparr>time := t0\<rparr>, 0)"

text \<open>
  The start of main up to the loop, without the creation of the window and of the
  graphics context: the configuration is read, the renderer is initialised, the one quad
  is pushed and synced, texture and shaders are loaded, the clock is initialised.
\<close>

definition main_startup :: "Env \<Rightarrow> real \<Rightarrow> Fatal + ((App \<times> real) \<times> Event list)" where
  "main_startup env t0 =
     (case reload_render_conf env ''render.conf'' (conf app_init) of
        Inl e \<Rightarrow> Inl e
      | Inr (cf, evs0) \<Rightarrow>
          (case renderer_init env (global_renderer app_init) of
             (r1, evs1) \<Rightarrow>
               (case renderer_push_quad r1 (v2f (- 1) (- 1)) (v2f 1 1) (v4f 0 0 0 0) of
                  Inl e \<Rightarrow> Inl e
                | Inr r2 \<Rightarrow>
                    (case renderer_reload_textures env cf r2 of
                       (r3, evs3) \<Rightarrow>
                         (case renderer_reload_shaders env cf r3 of
                            (r4, evs4) \<Rightarrow>
                              Inr (main_clock_init t0 (app_init\<lparr>global_renderer := r4, conf := cf\<rparr>),
                                   evs0 @ evs1 @ renderer_sync r2 @ evs3 @ evs4))))))"

text \<open>
  The states of the renderer that the operations of the program can produce from the
  zero-initialised global.
\<close>

inductive reachable :: "Renderer \<Rightarrow> bool" where
  reachable_init: "reachable global_renderer_init"
| reachable_push_vertex: "reachable r \<Longrightarrow> renderer_push_vertex r p t c = Inr r' \<Longrightarrow> reachable r'"
| reachable_renderer_init: "reachable r \<Longrightarrow> reachable (fst (renderer_init env r))"
| reachable_reload_textures: "reachable r \<Longrightarrow> reachable (fst (renderer_reload_textures env cf r))"
| reachable_reload_shaders: "reachable r \<Longrightarrow> reachable (fst (renderer_reload_shaders env cf r))"

section \<open>Notions used to state the properties\<close>

text \<open>A sequence of renderer_push_vertex calls, one per vertex of the list, in order.\<close>

fun push_vertices :: "Renderer \<Rightarrow> Vertex list \<Rightarrow> Fatal + Renderer" where
  "push_vertices r [] = Inr r"
| "push_vertices r (v # vs) =
     and_then (renderer_push_vertex r (pos v) (uv v) (color v)) (\<lambda>r'. push_vertices r' vs)"

text \<open>
  Twice the signed area of the triangle a, b, c: positive when the three points are in
  counter-clockwise order, negative when they are in clockwise order. triangle_area2 r i
  is that of the triangle stored at the indices i, i + 1, i + 2 of the batch.
\<close>

definition signed_area2 :: "V2f \<Rightarrow> V2f \<Rightarrow> V2f \<Rightarrow> real" where
  "signed_area2 a b c =
     (v2_x b - v2_x a) * (v2_y c - v2_y a) - (v2_y b - v2_y a) * (v2_x c - v2_x a)"

definition triangle_area2 :: "Renderer \<Rightarrow> nat \<Rightarrow> real" where
  "triangle_area2 r i =
     signed_area2 (pos (vertex_buf r i)) (pos (vertex_buf r (i + 1))) (pos (vertex_buf r (i + 2)))"

text \<open>The signed areas of the two triangles that renderer_push_quad appends.\<close>

definition quad_windings :: "Renderer \<Rightarrow> V2f \<Rightarrow> V2f \<Rightarrow> V4f \<Rightarrow> (real \<times> real) option" where
  "quad_windings r p1 p2 col =
     (case renderer_push_quad r p1 p2 col of
        Inl e \<Rightarrow> None
      | Inr r' \<Rightarrow> Some (triangle_area2 r' (vertex_buf_sz r), triangle_area2 r' (vertex_buf_sz r + 3)))"

text \<open>
  A concrete outside world and a concrete configuration, for the closed examples. The
  two shader files compile, each on its own, and do not link (the fragment shader reads
  an input that the vertex shader does not write); no image can be decoded.
  conf_example is the state of the four globals after reload_render_conf has scanned
  the three lines vert = shaders/a.vert, frag = shaders/a.frag, texture = img/a.png.
\<close>

definition env_example :: Env where
  "env_example =
     \<lparr>read_file = (\<lambda>p. if p = Some ''shaders/a.vert'' then Some ''void main(){gl_Position=vec4(0);}''
                       else if p = Some ''shaders/a.frag'' then Some ''in vec4 t;out vec4 c;void main(){c=t;}''
                       else None),
      gl_create_shader = (\<lambda>t. case t of GL_VERTEX_SHADER \<Rightarrow> 1 | GL_FRAGMENT_SHADER \<Rightarrow> 2),
      gl_compile_status = (\<lambda>t src. True),
      gl_shader_info_log = (\<lambda>t src. []),
      gl_create_program = 3,
      gl_link_status = (\<lambda>v f. False),
      gl_program_info_log = (\<lambda>v f. ''error: t not written by vertex shader''),
      gl_uniform_location = (\<lambda>p n. - 1),
      gl_gen_texture = 1,
      gl_gen_vertex_array = 1,
      gl_gen_buffer = 1,
      stbi_load = (\<lambda>p. None),
      glfw_window_size = (1600, 900),
      glfw_cursor_pos = (100, 50),
      malloc_ok = (\<lambda>n. True),
      stbi_write_png_ok = True\<rparr>"

definition conf_example :: Conf where
  "conf_example =
     \<lparr>render_conf = Some (''vert = shaders/a.vert'' @ [NUL] @ ''frag = shaders/a.frag'' @ [NUL] @
                          ''texture = img/a.png'' @ [NUL, NUL]),
      vert_path = Some 7, frag_path = Some 29, texture_path = Some 54\<rparr>"

text \<open>The outside world of env_example with a readable render.conf of the given bytes.\<close>

definition env_with_conf :: "string \<Rightarrow> Env" where
  "env_with_conf bytes =
     env_example\<lparr>read_file := (\<lambda>p. if p = Some ''render.conf'' then Some bytes else None)\<rparr>"

text \<open>
  What one key event does to the simulation time and the pause flag, in the words of the
  spec: a press of the space key toggles the flag; while the flag is set a press of the
  left or right arrow key steps the time back or forth by MANUAL_TIME_STEP, in one
  subtraction or addition of doubles; nothing else changes either of the two.
\<close>

definition key_effect :: "real \<times> bool \<Rightarrow> Key \<times> Action \<Rightarrow> real \<times> bool" where
  "key_effect s ev =
     (case s of
        (t, p) \<Rightarrow>
          (case ev of
             (key, action) \<Rightarrow>
               if action = GLFW_PRESS then
                 (if key = GLFW_KEY_SPACE then (t, \<not> p)
                  else if p \<and> key = GLFW_KEY_LEFT then (dbl_sub t MANUAL_TIME_STEP, p)
                  else if p \<and> key = GLFW_KEY_RIGHT then (dbl_add t MANUAL_TIME_STEP, p)
                  else (t, p))
               else (t, p)))"

text \<open>
  What one round of the loop of main does to the time, the pause flag and the previous
  reading of the wall clock, in the words of the spec: the key events of the round take
  effect one after the other; then, when pause is not set, time advances by the
  difference of the new reading and the previous one (a subtraction and an addition of
  doubles), and when pause is set time stays; the new reading becomes the previous one.
\<close>

definition frame_effect :: "real \<times> bool \<times> real \<Rightarrow> (Key \<times> Action) list \<times> real \<Rightarrow> real \<times> bool \<times> real" where
  "frame_effect s f =
     (case s of
        (t, p, prev_time) \<Rightarrow>
          (case f of
             (keys, cur_time) \<Rightarrow>
               (case foldl key_effect (t, p) keys of
                  (t1, p1) \<Rightarrow>
                    (if p1 then t1 else dbl_add t1 (dbl_sub cur_time prev_time), p1, cur_time))))"

subsection \<open>The render configuration as text\<close>

text \<open>
  The configuration file read as plain text, without buffers and pointers. The content
  is cut into lines at the newlines (a last line needs none). A line whose first
  character after leading white space is \<open>#\<close>, or which is empty after leading
  white space, has no entry. Any other line has the entry (key, value): the key is the
  text before the first \<open>=\<close> with the white space around it removed, the value is
  the text after that \<open>=\<close> with its leading white space removed and its trailing
  white space kept.
\<close>

definition trim_left :: "string \<Rightarrow> string" where
  "trim_left s = dropWhile isspace s"

definition trim_right :: "string \<Rightarrow> string" where
  "trim_right s = rev (dropWhile isspace (rev s))"

definition trim :: "string \<Rightarrow> string" where
  "trim s = trim_right (trim_left s)"

function conf_lines :: "string \<Rightarrow> string list" where
  "conf_lines s =
     (if s = [] then []
      else takeWhile (\<lambda>c. c \<noteq> NL) s # conf_lines (drop 1 (dropWhile (\<lambda>c. c \<noteq> NL) s)))"
  by pat_completeness auto
termination
proof (relation "measure length")
  show "wf (measure length)" by simp
next
  fix s :: string
  assume "s \<noteq> []"
  have "length (dropWhile (\<lambda>c. c \<noteq> NL) s) \<le> length s"
    by (rule length_dropWhile_le)
  moreover have "0 < length s" using \<open>s \<noteq> []\<close> by simp
  ultimately have "length (dropWhile (\<lambda>c. c \<noteq> NL) s) - 1 < length s"
    by arith
  then show "(drop 1 (dropWhile (\<lambda>c. c \<noteq> NL) s), s) \<in> measure length"
    by simp
qed

declare conf_lines.simps [simp del]

definition line_entry :: "string \<Rightarrow> (string \<times> string) option" where
  "line_entry line =
     (let l = trim_left line
      in if l = [] \<or> hd l = CHR ''#'' then None
         else Some (trim (takeWhile (\<lambda>c. c \<noteq> CHR ''='') l),
                    trim_left (drop 1 (dropWhile (\<lambda>c. c \<noteq> CHR ''='') l))))"

definition conf_entries :: "string \<Rightarrow> (string \<times> string) list" where
  "conf_entries content = List.map_filter line_entry (conf_lines content)"

text \<open>
  The result of a scan: the three paths as strings (None: the null pointer) and what was
  printed. line_step is the effect of one line with its row number: an entry with the key
  vert, frag or texture sets that path to its value and prints it, an entry with any
  other key prints the warning with the file, the row and the column of the key (the
  number of white space characters before it) and changes no path, a line without entry
  changes nothing. parse_conf scans the lines of a content from row 0, starting with
  three null paths.
\<close>

record Parsed =
  p_vert :: "string option"
  p_frag :: "string option"
  p_texture :: "string option"
  p_out :: "Event list"

definition line_step :: "string \<Rightarrow> 32 word \<Rightarrow> string \<Rightarrow> Parsed \<Rightarrow> Parsed" where
  "line_step render_conf_path row line ps =
     (case line_entry line of
        None \<Rightarrow> ps
      | Some (key, val) \<Rightarrow>
          if key = ''vert'' then
            ps\<lparr>p_vert := Some val, p_out := p_out ps @ [Stdout (Vertex_Path val)]\<rparr>
          else if key = ''frag'' then
            ps\<lparr>p_frag := Some val, p_out := p_out ps @ [Stdout (Fragment_Path val)]\<rparr>
          else if key = ''texture'' then
            ps\<lparr>p_texture := Some val, p_out := p_out ps @ [Stdout (Texture_Path val)]\<rparr>
          else
            ps\<lparr>p_out := p_out ps @
                 [Stdout (Unsupported_Key render_conf_path (sint row)
                            (int (length (takeWhile isspace line))) key)]\<rparr>)"

fun scan_lines :: "string \<Rightarrow> 32 word \<Rightarrow> string list \<Rightarrow> Parsed \<Rightarrow> Parsed" where
  "scan_lines render_conf_path row [] ps = ps"
| "scan_lines render_conf_path row (line # rest) ps =
     scan_lines render_conf_path (row + 1) rest (line_step render_conf_path row line ps)"

definition parse_conf :: "string \<Rightarrow> string \<Rightarrow> Parsed" where
  "parse_conf render_conf_path content =
     scan_lines render_conf_path 0 (conf_lines content)
       \<lparr>p_vert = None, p_frag = None, p_texture = None, p_out = []\<rparr>"

text \<open>
  What reload_render_conf leaves behind, read the way the rest of the program reads it:
  the C strings that the three path pointers lead to, and what was printed; None when
  the process has exited.
\<close>

definition reload_result :: "Env \<Rightarrow> string \<Rightarrow> Conf \<Rightarrow> Parsed option" where
  "reload_result env render_conf_path cf =
     (case reload_render_conf env render_conf_path cf of
        Inl e \<Rightarrow> None
      | Inr (cf', out) \<Rightarrow>
          Some \<lparr>p_vert = path_string cf' (vert_path cf'),
                p_frag = path_string cf' (frag_path cf'),
                p_texture = path_string cf' (texture_path cf'),
                p_out = out\<rparr>)"

text \<open>The same reading of a state of the scanning loop.\<close>

definition scan_view :: "Conf_Scan \<Rightarrow> Parsed" where
  "scan_view st =
     \<lparr>p_vert = map_option (cstr_at (scan_mem st)) (scan_vert st),
      p_frag = map_option (cstr_at (scan_mem st)) (scan_frag st),
      p_texture = map_option (cstr_at (scan_mem st)) (scan_texture st),
      p_out = scan_out st\<rparr>"

text \<open>
  The invariant of the scanning loop: there is a byte behind the content still to scan,
  that content holds no NUL, and the C string of each path that is set ends before it.
\<close>

definition path_ok :: "char list \<Rightarrow> nat \<Rightarrow> nat option \<Rightarrow> bool" where
  "path_ok mem bound p = (case p of None \<Rightarrow> True | Some q \<Rightarrow> q + length (cstr_at mem q) < bound)"

definition scan_inv :: "String_View \<Rightarrow> Conf_Scan \<Rightarrow> bool" where
  "scan_inv content st =
     (sv_data content + sv_count content < length (scan_mem st) \<and>
      NUL \<notin> set (sv_chars (scan_mem st) content) \<and>
      path_ok (scan_mem st) (sv_data content) (scan_vert st) \<and>
      path_ok (scan_mem st) (sv_data content) (scan_frag st) \<and>
      path_ok (scan_mem st) (sv_data content) (scan_texture st))"

section \<open>Rounding: evaluation\<close>

lemma round_even_of_int: "round_even (of_int m) = m"
  by (simp add: round_even_def)

lemma floor_log2_eq:
  assumes "2 powi e \<le> \<bar>x\<bar>" "\<bar>x\<bar> < 2 powi (e + 1)"
  shows "\<lfloor>log 2 \<bar>x\<bar>\<rfloor> = e"
proof -
  have pos: "0 < \<bar>x\<bar>"
    using assms(1) zero_less_power_int [of "2::real" e] by linarith
  have a: "(2::real) powr real_of_int e = 2 powi e"
    by (rule powr_real_of_int') simp_all
  have b: "(2::real) powr (real_of_int e + 1) = 2 powi (e + 1)"
    using powr_real_of_int' [of "2::real" "e + 1"] by simp
  show ?thesis
    using floor_log_eq_powr_iff [of "\<bar>x\<bar>" 2 e] pos assms a b by simp
qed

lemma ieee_round_eval:
  assumes "2 powi e \<le> \<bar>x\<bar>" "\<bar>x\<bar> < 2 powi (e + 1)" "emin \<le> e"
  shows "ieee_round p emin x =
           2 powi (e - (int p - 1)) * of_int (round_even (x / 2 powi (e - (int p - 1))))"
proof -
  have "0 < (2::real) powi e" by simp
  with assms(1) have "0 < \<bar>x\<bar>" by linarith
  then have "x \<noteq> 0" by auto
  moreover have "max \<lfloor>log 2 \<bar>x\<bar>\<rfloor> emin = e"
    using floor_log2_eq [OF assms(1,2)] assms(3) by simp
  ultimately show ?thesis
    by (simp add: ieee_round_def Let_def)
qed

lemma ieee_round_exact:
  assumes "2 powi e \<le> \<bar>x\<bar>" "\<bar>x\<bar> < 2 powi (e + 1)" "emin \<le> e"
    and "x = 2 powi (e - (int p - 1)) * of_int m"
  shows "ieee_round p emin x = x"
proof -
  have "x / 2 powi (e - (int p - 1)) = of_int m"
    using assms(4) by simp
  then show ?thesis
    using ieee_round_eval [OF assms(1,2,3), of p] assms(4) by (simp add: round_even_of_int)
qed

lemma ieee_round_0: "ieee_round p emin 0 = 0"
  by (simp add: ieee_round_def)

section \<open>Geometry batch: properties\<close>

lemma vertex_overwrite:
  "v\<lparr>pos := p, uv := t, color := c\<rparr> = \<lparr>pos = p, uv = t, color = c\<rparr>"
  by (cases v) simp

lemma push_vertex_Inr:
  "vertex_buf_sz r < VERTEX_BUF_CAP \<Longrightarrow>
   renderer_push_vertex r p t c =
     Inr (r\<lparr>vertex_buf := (vertex_buf r)(vertex_buf_sz r := \<lparr>pos = p, uv = t, color = c\<rparr>),
            vertex_buf_sz := vertex_buf_sz r + 1\<rparr>)"
  by (simp add: renderer_push_vertex_def Let_def vertex_overwrite)

lemma push_vertex_Inl:
  "\<not> vertex_buf_sz r < VERTEX_BUF_CAP \<Longrightarrow> renderer_push_vertex r p t c = Inl Assertion_Failed"
  by (simp add: renderer_push_vertex_def)

lemma reachable_sz: "reachable r \<Longrightarrow> vertex_buf_sz r \<le> VERTEX_BUF_CAP"
proof (induction rule: reachable.induct)
  case reachable_init
  show ?case by (simp add: global_renderer_init_def)
next
  case (reachable_push_vertex r p t c r')
  then show ?case
    by (cases "vertex_buf_sz r < VERTEX_BUF_CAP") (auto simp: push_vertex_Inr push_vertex_Inl)
next
  case (reachable_renderer_init r env)
  then show ?case by (simp add: renderer_init_def Let_def)
next
  case (reachable_reload_textures r env cf)
  then show ?case by (simp add: renderer_reload_textures_def Let_def split: option.splits prod.splits)
next
  case (reachable_reload_shaders r env cf)
  then show ?case
    by (simp add: renderer_reload_shaders_def Let_def all_uniforms_def split: prod.splits)
qed

text \<open>
  Claim C4. Below the capacity of 8192 vertices renderer_push_vertex appends exactly one
  vertex (the slot at the old length is written, the length grows by one, nothing else
  changes) and the length stays within the capacity. At full capacity the call is a
  failed assertion, which ends the process; it is not an error the caller can handle.
  Hence every state of the batch that the program can reach has a length of at most
  8192.
\<close>

theorem push_vertex_capacity:
  "(vertex_buf_sz r < VERTEX_BUF_CAP \<longrightarrow>
      renderer_push_vertex r p t c =
        Inr (r\<lparr>vertex_buf := (vertex_buf r)(vertex_buf_sz r := \<lparr>pos = p, uv = t, color = c\<rparr>),
               vertex_buf_sz := vertex_buf_sz r + 1\<rparr>)
      \<and> vertex_buf_sz r + 1 \<le> VERTEX_BUF_CAP) \<and>
   (\<not> vertex_buf_sz r < VERTEX_BUF_CAP \<longrightarrow> renderer_push_vertex r p t c = Inl Assertion_Failed) \<and>
   (reachable r \<longrightarrow> vertex_buf_sz r \<le> VERTEX_BUF_CAP) \<and>
   VERTEX_BUF_CAP = 8192"
  using push_vertex_Inr [of r p t c] push_vertex_Inl [of r p t c] reachable_sz [of r]
  by (simp add: VERTEX_BUF_CAP_def)

theorem push_vertex_capacity_witness:
  "renderer_push_vertex global_renderer_init (v2f 1 2) (v2f 0 1) (v4f 1 0 0 1) =
     Inr (global_renderer_init\<lparr>vertex_buf := (vertex_buf global_renderer_init)
             (vertex_buf_sz global_renderer_init := \<lparr>pos = v2f 1 2, uv = v2f 0 1, color = v4f 1 0 0 1\<rparr>),
           vertex_buf_sz := vertex_buf_sz global_renderer_init + 1\<rparr>) \<and>
   renderer_push_vertex (global_renderer_init\<lparr>vertex_buf_sz := VERTEX_BUF_CAP\<rparr>)
       (v2f 1 2) (v2f 0 1) (v4f 1 0 0 1) = Inl Assertion_Failed \<and>
   vertex_buf_sz global_renderer_init \<le> VERTEX_BUF_CAP"
proof -
  have a: "vertex_buf_sz global_renderer_init < VERTEX_BUF_CAP"
    by (simp add: global_renderer_init_def VERTEX_BUF_CAP_def)
  have b: "\<not> vertex_buf_sz (global_renderer_init\<lparr>vertex_buf_sz := VERTEX_BUF_CAP\<rparr>) < VERTEX_BUF_CAP"
    by simp
  show ?thesis
    using a b reachable_init
      push_vertex_capacity [of global_renderer_init "v2f 1 2" "v2f 0 1" "v4f 1 0 0 1"]
      push_vertex_capacity [of "global_renderer_init\<lparr>vertex_buf_sz := VERTEX_BUF_CAP\<rparr>"
         "v2f 1 2" "v2f 0 1" "v4f 1 0 0 1"]
    by blast
qed

lemma push_vertices_Inr:
  "vertex_buf_sz r + length vs \<le> VERTEX_BUF_CAP \<Longrightarrow>
   \<exists>r'. push_vertices r vs = Inr r' \<and> vertex_buf_sz r' = vertex_buf_sz r + length vs \<and>
        map (vertex_buf r') [0 ..< vertex_buf_sz r'] = map (vertex_buf r) [0 ..< vertex_buf_sz r] @ vs"
proof (induction vs arbitrary: r)
  case Nil
  then show ?case by simp
next
  case (Cons v vs)
  let ?r1 = "r\<lparr>vertex_buf := (vertex_buf r)(vertex_buf_sz r := \<lparr>pos = pos v, uv = uv v, color = color v\<rparr>),
               vertex_buf_sz := vertex_buf_sz r + 1\<rparr>"
  from Cons.prems have lt: "vertex_buf_sz r < VERTEX_BUF_CAP" by simp
  have step: "renderer_push_vertex r (pos v) (uv v) (color v) = Inr ?r1"
    using lt by (rule push_vertex_Inr)
  have v: "\<lparr>pos = pos v, uv = uv v, color = color v\<rparr> = v" by simp
  from Cons.prems have "vertex_buf_sz ?r1 + length vs \<le> VERTEX_BUF_CAP" by simp
  from Cons.IH [OF this] obtain r' where
    r': "push_vertices ?r1 vs = Inr r'"
      "vertex_buf_sz r' = vertex_buf_sz ?r1 + length vs"
      "map (vertex_buf r') [0 ..< vertex_buf_sz r'] = map (vertex_buf ?r1) [0 ..< vertex_buf_sz ?r1] @ vs"
    by blast
  have "push_vertices r (v # vs) = Inr r'"
    using step r'(1) by (simp add: and_then_def)
  moreover have "vertex_buf_sz r' = vertex_buf_sz r + length (v # vs)"
    using r'(2) by simp
  moreover have "map (vertex_buf ?r1) [0 ..< vertex_buf_sz ?r1] = map (vertex_buf r) [0 ..< vertex_buf_sz r] @ [v]"
    by (simp add: v)
  ultimately show ?case using r'(3) by simp
qed

text \<open>
  Claim C5. Whatever vertices are pushed within the capacity, every push succeeds and
  renderer_sync then uploads, at offset 0, exactly as many bytes as the current length
  of the batch holds (not the whole capacity): the vertices that were in the batch
  before, followed by the pushed ones in the order of the pushes, and no more. From the
  empty batch the uploaded sequence is the pushed sequence.
\<close>

theorem sync_uploads_pushed:
  "vertex_buf_sz r + length vs \<le> VERTEX_BUF_CAP \<Longrightarrow>
   \<exists>r'. push_vertices r vs = Inr r' \<and>
        vertex_buf_sz r' = vertex_buf_sz r + length vs \<and>
        renderer_sync r' =
          [GlBufferSubData 0 (sizeof_Vertex * (vertex_buf_sz r + length vs))
             (map (vertex_buf r) [0 ..< vertex_buf_sz r] @ vs)]"
proof -
  assume "vertex_buf_sz r + length vs \<le> VERTEX_BUF_CAP"
  from push_vertices_Inr [OF this] obtain r' where
    r': "push_vertices r vs = Inr r'" "vertex_buf_sz r' = vertex_buf_sz r + length vs"
      "map (vertex_buf r') [0 ..< vertex_buf_sz r'] = map (vertex_buf r) [0 ..< vertex_buf_sz r] @ vs"
    by blast
  have "renderer_sync r' =
          [GlBufferSubData 0 (sizeof_Vertex * vertex_buf_sz r') (map (vertex_buf r') [0 ..< vertex_buf_sz r'])]"
    by (simp add: renderer_sync_def Let_def sizeof_Vertex_def)
  with r' show ?thesis by simp
qed

theorem sync_uploads_pushed_witness:
  "\<exists>r'. push_vertices global_renderer_init
          [\<lparr>pos = v2f 0 0, uv = v2f 0 0, color = v4f 1 0 0 1\<rparr>,
           \<lparr>pos = v2f 1 0, uv = v2f 1 0, color = v4f 0 1 0 1\<rparr>] = Inr r' \<and>
        vertex_buf_sz r' = 2 \<and>
        renderer_sync r' =
          [GlBufferSubData 0 (sizeof_Vertex * 2)
             [\<lparr>pos = v2f 0 0, uv = v2f 0 0, color = v4f 1 0 0 1\<rparr>,
              \<lparr>pos = v2f 1 0, uv = v2f 1 0, color = v4f 0 1 0 1\<rparr>]]"
proof -
  have a: "vertex_buf_sz global_renderer_init +
           length [\<lparr>pos = v2f 0 0, uv = v2f 0 0, color = v4f 1 0 0 1\<rparr>,
                   \<lparr>pos = v2f 1 0, uv = v2f 1 0, color = v4f 0 1 0 1\<rparr>] \<le> VERTEX_BUF_CAP"
    by (simp add: global_renderer_init_def VERTEX_BUF_CAP_def)
  have z: "vertex_buf_sz global_renderer_init = 0"
    by (simp add: global_renderer_init_def)
  from sync_uploads_pushed [OF a] obtain r' where
    r': "push_vertices global_renderer_init
           [\<lparr>pos = v2f 0 0, uv = v2f 0 0, color = v4f 1 0 0 1\<rparr>,
            \<lparr>pos = v2f 1 0, uv = v2f 1 0, color = v4f 0 1 0 1\<rparr>] = Inr r'"
      "vertex_buf_sz r' = vertex_buf_sz global_renderer_init +
         length [\<lparr>pos = v2f 0 0, uv = v2f 0 0, color = v4f 1 0 0 1\<rparr>,
                 \<lparr>pos = v2f 1 0, uv = v2f 1 0, color = v4f 0 1 0 1\<rparr>]"
      "renderer_sync r' =
         [GlBufferSubData 0
            (sizeof_Vertex * (vertex_buf_sz global_renderer_init +
               length [\<lparr>pos = v2f 0 0, uv = v2f 0 0, color = v4f 1 0 0 1\<rparr>,
                       \<lparr>pos = v2f 1 0, uv = v2f 1 0, color = v4f 0 1 0 1\<rparr>]))
            (map (vertex_buf global_renderer_init) [0 ..< vertex_buf_sz global_renderer_init] @
               [\<lparr>pos = v2f 0 0, uv = v2f 0 0, color = v4f 1 0 0 1\<rparr>,
                \<lparr>pos = v2f 1 0, uv = v2f 1 0, color = v4f 0 1 0 1\<rparr>])]"
    by blast
  have "vertex_buf_sz r' = 2" using r'(2) by (simp add: z)
  moreover have "renderer_sync r' =
          [GlBufferSubData 0 (sizeof_Vertex * 2)
             [\<lparr>pos = v2f 0 0, uv = v2f 0 0, color = v4f 1 0 0 1\<rparr>,
              \<lparr>pos = v2f 1 0, uv = v2f 1 0, color = v4f 0 1 0 1\<rparr>]]"
    using r'(3) by (simp add: z)
  ultimately show ?thesis using r'(1) by blast
qed

lemma push_quad_Inr:
  assumes "vertex_buf_sz r + 6 \<le> VERTEX_BUF_CAP"
  shows "renderer_push_quad r p1 p2 col =
     Inr (r\<lparr>vertex_buf := (vertex_buf r)
              (vertex_buf_sz r := \<lparr>pos = p1, uv = v2f 0 0, color = col\<rparr>,
               vertex_buf_sz r + 1 := \<lparr>pos = v2f (v2_x p2) (v2_y p1), uv = v2f 1 0, color = col\<rparr>,
               vertex_buf_sz r + 2 := \<lparr>pos = v2f (v2_x p1) (v2_y p2), uv = v2f 0 1, color = col\<rparr>,
               vertex_buf_sz r + 3 := \<lparr>pos = v2f (v2_x p2) (v2_y p1), uv = v2f 1 0, color = col\<rparr>,
               vertex_buf_sz r + 4 := \<lparr>pos = v2f (v2_x p1) (v2_y p2), uv = v2f 0 1, color = col\<rparr>,
               vertex_buf_sz r + 5 := \<lparr>pos = p2, uv = v2f 1 1, color = col\<rparr>),
            vertex_buf_sz := vertex_buf_sz r + 6\<rparr>)"
proof -
  have n: "vertex_buf_sz r + 3 = Suc (Suc (Suc (vertex_buf_sz r)))"
    "vertex_buf_sz r + 4 = Suc (Suc (Suc (Suc (vertex_buf_sz r))))"
    "vertex_buf_sz r + 5 = Suc (Suc (Suc (Suc (Suc (vertex_buf_sz r)))))"
    "vertex_buf_sz r + 6 = Suc (Suc (Suc (Suc (Suc (Suc (vertex_buf_sz r))))))"
    by simp_all
  show ?thesis
    unfolding n using assms
    by (simp add: renderer_push_quad_def push_vertex_Inr and_then_def Let_def)
qed

text \<open>
  Claim C2, as stated, fails on its last part: the two triangles do not have the same
  winding. For the quad that main pushes, from (-1, -1) to (1, 1), the triangle (a, b, c)
  has twice the signed area 4 (counter-clockwise) and the triangle (b, c, d) has -4
  (clockwise).
\<close>

theorem push_quad_opposite_winding_example:
  "quad_windings global_renderer_init (v2f (- 1) (- 1)) (v2f 1 1) (v4f 0 0 0 0) = Some (4, - 4)"
proof -
  have "vertex_buf_sz global_renderer_init + 6 \<le> VERTEX_BUF_CAP"
    by (simp add: global_renderer_init_def VERTEX_BUF_CAP_def)
  from push_quad_Inr [OF this] show ?thesis
    by (simp add: quad_windings_def triangle_area2_def signed_area2_def global_renderer_init_def)
qed

text \<open>
  Claim C2, amended. When the batch has room for six more vertices, renderer_push_quad
  appends exactly six vertices and changes nothing else: the triangles (a, b, c) and
  (b, c, d) of the axis-aligned rectangle spanned by the two corners, with a = p1,
  b = (p2.x, p1.y), c = (p1.x, p2.y), d = p2, all six with the given colour, and with
  the UV corners (0,0), (1,0), (0,1), (1,1) at a, b, c, d. The two triangles have
  opposite winding: twice their signed areas are (x2 - x1) * (y2 - y1) and its negative.
\<close>

theorem push_quad_six_vertices:
  assumes "vertex_buf_sz r + 6 \<le> VERTEX_BUF_CAP"
  shows "renderer_push_quad r (v2f x1 y1) (v2f x2 y2) col =
     Inr (r\<lparr>vertex_buf := (vertex_buf r)
              (vertex_buf_sz r := \<lparr>pos = v2f x1 y1, uv = v2f 0 0, color = col\<rparr>,
               vertex_buf_sz r + 1 := \<lparr>pos = v2f x2 y1, uv = v2f 1 0, color = col\<rparr>,
               vertex_buf_sz r + 2 := \<lparr>pos = v2f x1 y2, uv = v2f 0 1, color = col\<rparr>,
               vertex_buf_sz r + 3 := \<lparr>pos = v2f x2 y1, uv = v2f 1 0, color = col\<rparr>,
               vertex_buf_sz r + 4 := \<lparr>pos = v2f x1 y2, uv = v2f 0 1, color = col\<rparr>,
               vertex_buf_sz r + 5 := \<lparr>pos = v2f x2 y2, uv = v2f 1 1, color = col\<rparr>),
            vertex_buf_sz := vertex_buf_sz r + 6\<rparr>) \<and>
     quad_windings r (v2f x1 y1) (v2f x2 y2) col =
       Some ((x2 - x1) * (y2 - y1), - ((x2 - x1) * (y2 - y1)))"
proof -
  have q: "renderer_push_quad r (v2f x1 y1) (v2f x2 y2) col =
     Inr (r\<lparr>vertex_buf := (vertex_buf r)
              (vertex_buf_sz r := \<lparr>pos = v2f x1 y1, uv = v2f 0 0, color = col\<rparr>,
               vertex_buf_sz r + 1 := \<lparr>pos = v2f x2 y1, uv = v2f 1 0, color = col\<rparr>,
               vertex_buf_sz r + 2 := \<lparr>pos = v2f x1 y2, uv = v2f 0 1, color = col\<rparr>,
               vertex_buf_sz r + 3 := \<lparr>pos = v2f x2 y1, uv = v2f 1 0, color = col\<rparr>,
               vertex_buf_sz r + 4 := \<lparr>pos = v2f x1 y2, uv = v2f 0 1, color = col\<rparr>,
               vertex_buf_sz r + 5 := \<lparr>pos = v2f x2 y2, uv = v2f 1 1, color = col\<rparr>),
            vertex_buf_sz := vertex_buf_sz r + 6\<rparr>)"
    using push_quad_Inr [OF assms, of "v2f x1 y1" "v2f x2 y2" col] by simp
  have w: "quad_windings r (v2f x1 y1) (v2f x2 y2) col =
       Some ((x2 - x1) * (y2 - y1), - ((x2 - x1) * (y2 - y1)))"
    unfolding quad_windings_def q
    by (simp add: triangle_area2_def signed_area2_def algebra_simps)
  from q w show ?thesis by (rule conjI)
qed

theorem push_quad_six_vertices_witness:
  "renderer_push_quad global_renderer_init (v2f (- 1) (- 1)) (v2f 1 1) (v4f 0 0 0 0) =
     Inr (global_renderer_init\<lparr>vertex_buf := (vertex_buf global_renderer_init)
              (vertex_buf_sz global_renderer_init := \<lparr>pos = v2f (- 1) (- 1), uv = v2f 0 0, color = v4f 0 0 0 0\<rparr>,
               vertex_buf_sz global_renderer_init + 1 := \<lparr>pos = v2f 1 (- 1), uv = v2f 1 0, color = v4f 0 0 0 0\<rparr>,
               vertex_buf_sz global_renderer_init + 2 := \<lparr>pos = v2f (- 1) 1, uv = v2f 0 1, color = v4f 0 0 0 0\<rparr>,
               vertex_buf_sz global_renderer_init + 3 := \<lparr>pos = v2f 1 (- 1), uv = v2f 1 0, color = v4f 0 0 0 0\<rparr>,
               vertex_buf_sz global_renderer_init + 4 := \<lparr>pos = v2f (- 1) 1, uv = v2f 0 1, color = v4f 0 0 0 0\<rparr>,
               vertex_buf_sz global_renderer_init + 5 := \<lparr>pos = v2f 1 1, uv = v2f 1 1, color = v4f 0 0 0 0\<rparr>),
            vertex_buf_sz := vertex_buf_sz global_renderer_init + 6\<rparr>) \<and>
   quad_windings global_renderer_init (v2f (- 1) (- 1)) (v2f 1 1) (v4f 0 0 0 0) =
     Some ((1 - (- 1)) * (1 - (- 1)), - ((1 - (- 1)) * (1 - (- 1))))"
proof -
  have a: "vertex_buf_sz global_renderer_init + 6 \<le> VERTEX_BUF_CAP"
    by (simp add: global_renderer_init_def VERTEX_BUF_CAP_def)
  show ?thesis
    by (rule push_quad_six_vertices [OF a])
qed

section \<open>Texture slot: properties\<close>

lemma conf_example_paths:
  "path_string conf_example (vert_path conf_example) = Some ''shaders/a.vert''"
  "path_string conf_example (frag_path conf_example) = Some ''shaders/a.frag''"
  "path_string conf_example (texture_path conf_example) = Some ''img/a.png''"
  by (simp_all add: path_string_def conf_example_def cstr_at_def NUL_def)

text \<open>
  Claim C3. Whatever the texture path is, when the image cannot be decoded
  renderer_reload_textures leaves the renderer as it was, texture name included, and
  issues no call of the graphics API (it only prints the error). The old texture name is
  deleted only in a run in which the pixel data was loaded.
\<close>

theorem texture_reload_failure_keeps_texture:
  "(stbi_load env (path_string cf (texture_path cf)) = None \<longrightarrow>
      renderer_reload_textures env cf r =
        (r, [Stderr (Could_Not_Load_Image (path_string cf (texture_path cf)))])) \<and>
   (GlDeleteTextures h \<in> set (snd (renderer_reload_textures env cf r)) \<longrightarrow>
      stbi_load env (path_string cf (texture_path cf)) \<noteq> None \<and> h = texture r)"
  by (auto simp: renderer_reload_textures_def Let_def split: option.splits prod.splits)

theorem texture_reload_failure_keeps_texture_witness:
  "renderer_reload_textures env_example conf_example global_renderer_init =
     (global_renderer_init, [Stderr (Could_Not_Load_Image (Some ''img/a.png''))]) \<and>
   stbi_load (env_example\<lparr>stbi_load := (\<lambda>p. Some (1, 1, [255, 0, 0, 255]))\<rparr>)
     (path_string conf_example (texture_path conf_example)) \<noteq> None"
proof -
  have a: "stbi_load env_example (path_string conf_example (texture_path conf_example)) = None"
    by (simp add: env_example_def)
  have b: "GlDeleteTextures 0 \<in> set (snd (renderer_reload_textures
             (env_example\<lparr>stbi_load := (\<lambda>p. Some (1, 1, [255, 0, 0, 255]))\<rparr>) conf_example global_renderer_init))"
    by (simp add: renderer_reload_textures_def global_renderer_init_def Let_def)
  show ?thesis
    using a b
      texture_reload_failure_keeps_texture [where env = env_example and cf = conf_example
         and r = global_renderer_init and h = 0]
      texture_reload_failure_keeps_texture
        [where env = "env_example\<lparr>stbi_load := (\<lambda>p. Some (1, 1, [255, 0, 0, 255]))\<rparr>"
         and cf = conf_example and r = global_renderer_init and h = 0]
    by (simp add: conf_example_paths)
qed

section \<open>Shader program cache: properties\<close>

lemma to_float_example_values:
  "to_float 1600 = 1600" "to_float 900 = 900" "to_float 100 = 100" "to_float 850 = 850"
  "to_float 0 = 0" "dbl_sub 900 50 = 850"
proof -
  show "to_float 1600 = 1600"
    unfolding to_float_def
    by (rule ieee_round_exact [where e = 10 and m = 13107200]) simp_all
  show "to_float 900 = 900"
    unfolding to_float_def
    by (rule ieee_round_exact [where e = 9 and m = 14745600]) simp_all
  show "to_float 100 = 100"
    unfolding to_float_def
    by (rule ieee_round_exact [where e = 6 and m = 13107200]) simp_all
  show "to_float 850 = 850"
    unfolding to_float_def
    by (rule ieee_round_exact [where e = 9 and m = 13926400]) simp_all
  show "to_float 0 = 0"
    by (simp add: to_float_def ieee_round_0)
  have "to_double 850 = 850"
    unfolding to_double_def
    by (rule ieee_round_exact [where e = 9 and m = 7476679068876800]) simp_all
  then show "dbl_sub 900 50 = 850"
    by (simp add: dbl_sub_def)
qed

text \<open>
  Claim C1 does not hold on the code where the link step fails. In the example both
  shader files are read and compiled, the link status is false and the diagnostic is
  printed, and still renderer_reload_shaders resolves the uniforms, clears
  program_failed and restores the transparent clear colour; the next frame draws.
\<close>

theorem reload_shaders_link_failure_loaded:
  "renderer_reload_shaders env_example conf_example global_renderer_init =
     (global_renderer_init\<lparr>program_failed := False, program := 3, uniforms := (\<lambda>u. - 1)\<rparr>,
      [GlDeleteProgram 0, GlClearColor 1 0 0 1, GlCreateShader GL_VERTEX_SHADER,
       GlShaderSource 1 ''void main(){gl_Position=vec4(0);}'', GlCompileShader 1,
       GlCreateShader GL_FRAGMENT_SHADER,
       GlShaderSource 2 ''in vec4 t;out vec4 c;void main(){c=t;}'',
       GlCompileShader 2, GlCreateProgram, GlAttachShader 3 1,
       GlAttachShader 3 2, GlLinkProgram 3,
       Stderr (Program_Linking ''error: t not written by vertex shader''),
       GlDeleteShader 1, GlDeleteShader 2, GlUseProgram 3,
       GlGetUniformLocation 3 ''resolution'', GlGetUniformLocation 3 ''time'',
       GlGetUniformLocation 3 ''mouse'', GlClearColor 0 0 0 0,
       Stdout Successfully_Reload]) \<and>
   draw_frame env_example
     (app_init\<lparr>global_renderer :=
        fst (renderer_reload_shaders env_example conf_example global_renderer_init)\<rparr>) =
     [GlClear, GlUniform2f (- 1) 1600 900, GlUniform1f (- 1) 0,
      GlUniform2f (- 1) 100 850, GlDrawArraysInstanced 0 0 1]"
proof -
  have u: "(\<lambda>u. 0 :: int)(RESOLUTION_UNIFORM := - 1, TIME_UNIFORM := - 1, MOUSE_UNIFORM := - 1) = (\<lambda>u. - 1)"
  proof
    fix u :: Uniform
    show "((\<lambda>u. 0 :: int)(RESOLUTION_UNIFORM := - 1, TIME_UNIFORM := - 1, MOUSE_UNIFORM := - 1)) u = - 1"
      by (cases u) simp_all
  qed
  have 1: "renderer_reload_shaders env_example conf_example global_renderer_init =
     (global_renderer_init\<lparr>program_failed := False, program := 3, uniforms := (\<lambda>u. - 1)\<rparr>,
      [GlDeleteProgram 0, GlClearColor 1 0 0 1, GlCreateShader GL_VERTEX_SHADER,
       GlShaderSource 1 ''void main(){gl_Position=vec4(0);}'', GlCompileShader 1,
       GlCreateShader GL_FRAGMENT_SHADER,
       GlShaderSource 2 ''in vec4 t;out vec4 c;void main(){c=t;}'',
       GlCompileShader 2, GlCreateProgram, GlAttachShader 3 1,
       GlAttachShader 3 2, GlLinkProgram 3,
       Stderr (Program_Linking ''error: t not written by vertex shader''),
       GlDeleteShader 1, GlDeleteShader 2, GlUseProgram 3,
       GlGetUniformLocation 3 ''resolution'', GlGetUniformLocation 3 ''time'',
       GlGetUniformLocation 3 ''mouse'', GlClearColor 0 0 0 0,
       Stdout Successfully_Reload])"
    by (simp add: renderer_reload_shaders_def conf_example_paths load_shader_program_def
          compile_shader_file_def slurp_file_into_malloced_cstr_def compile_shader_source_def
          link_program_def env_example_def global_renderer_init_def all_uniforms_def
          cstr_at_def NUL_def Let_def u)
  show ?thesis
    unfolding 1
    by (simp add: draw_frame_def app_init_def env_example_def global_renderer_init_def
          to_float_example_values)
qed

section \<open>Simulation clock: properties\<close>

lemma MANUAL_TIME_STEP_value: "MANUAL_TIME_STEP = 3602879701896397 / 36028797018963968"
  unfolding MANUAL_TIME_STEP_def to_double_def
  by (subst ieee_round_eval [where e = "- 4"]) (simp_all add: round_even_def)

lemma key_callback_step_paused:
  "pause ap \<Longrightarrow>
   key_callback env GLFW_KEY_LEFT GLFW_PRESS ap =
     Inr (ap\<lparr>time := dbl_sub (time ap) MANUAL_TIME_STEP\<rparr>, []) \<and>
   key_callback env GLFW_KEY_RIGHT GLFW_PRESS ap =
     Inr (ap\<lparr>time := dbl_add (time ap) MANUAL_TIME_STEP\<rparr>, [])"
  by (simp add: key_callback_def key_branch_def)

lemma key_callback_step_running:
  "\<not> pause ap \<Longrightarrow>
   key_callback env GLFW_KEY_LEFT GLFW_PRESS ap = Inr (ap, []) \<and>
   key_callback env GLFW_KEY_RIGHT GLFW_PRESS ap = Inr (ap, [])"
  by (simp add: key_callback_def key_branch_def)

lemma key_callback_not_press:
  "action \<noteq> GLFW_PRESS \<Longrightarrow> key_callback env key action ap = Inr (ap, [])"
  by (simp add: key_callback_def)

lemma key_branch_clock:
  "key_branch env key ap = Inr (returned, ap1, evs) \<Longrightarrow>
   time ap1 = time ap \<and>
   pause ap1 = (if key = GLFW_KEY_SPACE then \<not> pause ap else pause ap) \<and>
   (returned \<longrightarrow> key = GLFW_KEY_F6)"
  by (auto simp: key_branch_def split: if_splits sum.splits prod.splits)

lemma key_callback_clock:
  assumes "key_callback env key action ap = Inr (ap', evs)"
  shows "(time ap', pause ap') = key_effect (time ap, pause ap) (key, action)"
proof (cases "action = GLFW_PRESS")
  case False
  then show ?thesis
    using assms by (simp add: key_callback_def key_effect_def)
next
  case True
  from assms True obtain returned ap1 evs1 where
    b: "key_branch env key ap = Inr (returned, ap1, evs1)"
    by (auto simp: key_callback_def split: sum.splits)
  note c = key_branch_clock [OF b]
  show ?thesis
    using assms True b c
    by (auto simp: key_callback_def key_effect_def split: if_splits)
qed

lemma poll_events_clock:
  "poll_events env keys ap = Inr (ap', evs) \<Longrightarrow>
   (time ap', pause ap') = foldl key_effect (time ap, pause ap) keys"
proof (induction keys arbitrary: ap evs)
  case Nil
  then show ?case by simp
next
  case (Cons k keys)
  obtain key action where k: "k = (key, action)" by (cases k)
  from Cons.prems obtain ap1 evs1 evs2 where
    a: "key_callback env key action ap = Inr (ap1, evs1)" and
    b: "poll_events env keys ap1 = Inr (ap', evs2)"
    by (auto simp: k split: sum.splits prod.splits)
  have "(time ap', pause ap') = foldl key_effect (time ap1, pause ap1) keys"
    using b by (rule Cons.IH)
  then show ?case
    using key_callback_clock [OF a] by (simp add: k)
qed

lemma main_loop_body_clock:
  assumes "main_loop_body env keys cur_time (ap, prev_time) = Inr ((ap', prev'), evs)"
  shows "(time ap', pause ap', prev') = frame_effect (time ap, pause ap, prev_time) (keys, cur_time)"
proof -
  from assms obtain ap1 evs1 where
    a: "poll_events env keys ap = Inr (ap1, evs1)" and
    b: "advance_clock cur_time (ap1, prev_time) = (ap', prev')"
    by (auto simp: main_loop_body_def split: sum.splits prod.splits)
  from poll_events_clock [OF a]
  have c: "foldl key_effect (time ap, pause ap) keys = (time ap1, pause ap1)" by simp
  show ?thesis
    using b by (auto simp: frame_effect_def c advance_clock_def split: if_splits)
qed

lemma main_loop_clock:
  "main_loop env frames (ap, prev_time) = Inr ((ap', prev'), evs) \<Longrightarrow>
   (time ap', pause ap', prev') = foldl frame_effect (time ap, pause ap, prev_time) frames"
proof (induction frames arbitrary: ap prev_time evs)
  case Nil
  then show ?case by simp
next
  case (Cons f frames)
  obtain keys cur_time where f: "f = (keys, cur_time)" by (cases f)
  from Cons.prems obtain ap1 prev1 evs1 evs2 where
    a: "main_loop_body env keys cur_time (ap, prev_time) = Inr ((ap1, prev1), evs1)" and
    b: "main_loop env frames (ap1, prev1) = Inr ((ap', prev'), evs2)"
    by (auto simp: f split: sum.splits prod.splits)
  have "(time ap', pause ap', prev') = foldl frame_effect (time ap1, pause ap1, prev1) frames"
    using b by (rule Cons.IH)
  then show ?case
    using main_loop_body_clock [OF a] by (simp add: f)
qed

lemma main_loop_paused:
  "pause ap \<Longrightarrow>
   \<exists>evs. main_loop env (map (\<lambda>t. ([], t)) ts) (ap, prev_time) = Inr ((ap, last (prev_time # ts)), evs)"
proof (induction ts arbitrary: prev_time)
  case Nil
  then show ?case by simp
next
  case (Cons t ts)
  have body: "main_loop_body env [] t (ap, prev_time) =
      Inr ((ap, t), draw_frame env ap @ [GlfwSwapBuffers, GlfwPollEvents])"
    using Cons.prems by (simp add: main_loop_body_def advance_clock_def)
  from Cons.IH [OF Cons.prems, of t] obtain evs where
    "main_loop env (map (\<lambda>t. ([], t)) ts) (ap, t) = Inr ((ap, last (t # ts)), evs)" by blast
  then show ?case using body by simp
qed

lemma dbl_add_steps:
  "dbl_add 0 (3602879701896397 / 36028797018963968) = 3602879701896397 / 36028797018963968"
  "dbl_add (3602879701896397 / 36028797018963968) (3602879701896397 / 36028797018963968) =
     7205759403792794 / 36028797018963968"
  "dbl_add (7205759403792794 / 36028797018963968) (3602879701896397 / 36028797018963968) =
     10808639105689192 / 36028797018963968"
proof -
  show "dbl_add 0 (3602879701896397 / 36028797018963968) = 3602879701896397 / 36028797018963968"
    unfolding dbl_add_def to_double_def
    by (subst ieee_round_eval [where e = "- 4"]) (simp_all add: round_even_def)
  show "dbl_add (3602879701896397 / 36028797018963968) (3602879701896397 / 36028797018963968) =
     7205759403792794 / 36028797018963968"
    unfolding dbl_add_def to_double_def
    by (subst ieee_round_eval [where e = "- 3"]) (simp_all add: round_even_def)
  show "dbl_add (7205759403792794 / 36028797018963968) (3602879701896397 / 36028797018963968) =
     10808639105689192 / 36028797018963968"
    unfolding dbl_add_def to_double_def
    by (subst ieee_round_eval [where e = "- 2"]) (simp_all add: round_even_def)
qed

text \<open>
  Claim C6, as stated, fails on the size of a step: time is a double and a step is one
  rounded addition of the double 0.1, so a step does not change time by exactly 0.1.
  With pause set and time 0, two presses of the right arrow key bring time to
  7205759403792794 / 2^55; the third press brings it to 10808639105689192 / 2^55
  (0.30000000000000004), a change of 3602879701896398 / 2^55, which is neither the real
  number 0.1 nor the double MANUAL_TIME_STEP = 3602879701896397 / 2^55.
\<close>

theorem manual_step_not_exactly_a_tenth:
  "poll_events env_example [(GLFW_KEY_RIGHT, GLFW_PRESS), (GLFW_KEY_RIGHT, GLFW_PRESS)]
     (app_init\<lparr>pause := True\<rparr>) =
     Inr (app_init\<lparr>pause := True, time := 7205759403792794 / 36028797018963968\<rparr>, []) \<and>
   key_callback env_example GLFW_KEY_RIGHT GLFW_PRESS
     (app_init\<lparr>pause := True, time := 7205759403792794 / 36028797018963968\<rparr>) =
     Inr (app_init\<lparr>pause := True, time := 10808639105689192 / 36028797018963968\<rparr>, []) \<and>
   10808639105689192 / 36028797018963968 - 7205759403792794 / 36028797018963968 \<noteq> (1 / 10 :: real) \<and>
   10808639105689192 / 36028797018963968 - 7205759403792794 / 36028797018963968 \<noteq> MANUAL_TIME_STEP"
proof -
  have k: "key_callback env_example GLFW_KEY_RIGHT GLFW_PRESS (app_init\<lparr>pause := True, time := t\<rparr>) =
      Inr (app_init\<lparr>pause := True, time := dbl_add t MANUAL_TIME_STEP\<rparr>, [])" for t
    by (simp add: key_callback_def key_branch_def)
  have s1: "dbl_add 0 MANUAL_TIME_STEP = 3602879701896397 / 36028797018963968"
    unfolding MANUAL_TIME_STEP_value by (rule dbl_add_steps(1))
  have s2: "dbl_add (3602879701896397 / 36028797018963968) MANUAL_TIME_STEP =
      7205759403792794 / 36028797018963968"
    unfolding MANUAL_TIME_STEP_value by (rule dbl_add_steps(2))
  have s3: "dbl_add (7205759403792794 / 36028797018963968) MANUAL_TIME_STEP =
      10808639105689192 / 36028797018963968"
    unfolding MANUAL_TIME_STEP_value by (rule dbl_add_steps(3))
  have i: "app_init\<lparr>pause := True\<rparr> = app_init\<lparr>pause := True, time := 0\<rparr>"
    by (simp add: app_init_def)
  have 1: "poll_events env_example [(GLFW_KEY_RIGHT, GLFW_PRESS), (GLFW_KEY_RIGHT, GLFW_PRESS)]
     (app_init\<lparr>pause := True\<rparr>) =
     Inr (app_init\<lparr>pause := True, time := 7205759403792794 / 36028797018963968\<rparr>, [])"
    apply (subst i)
    apply (simp only: poll_events.simps k s1 s2 sum.case prod.case append.simps)
    done
  have 2: "key_callback env_example GLFW_KEY_RIGHT GLFW_PRESS
     (app_init\<lparr>pause := True, time := 7205759403792794 / 36028797018963968\<rparr>) =
     Inr (app_init\<lparr>pause := True, time := 10808639105689192 / 36028797018963968\<rparr>, [])"
    by (simp only: k s3)
  have 3: "10808639105689192 / 36028797018963968 - 7205759403792794 / 36028797018963968 \<noteq> (1 / 10 :: real)"
    by simp
  have 4: "10808639105689192 / 36028797018963968 - 7205759403792794 / 36028797018963968 \<noteq> MANUAL_TIME_STEP"
    by (simp add: MANUAL_TIME_STEP_value)
  from 1 2 3 4 show ?thesis by blast
qed

text \<open>
  Claim C6, amended. key_effect and frame_effect say all that happens to time and pause.
  A key event that is not a press changes nothing at all. A press of the space key
  toggles pause. While pause is set, a press of the left or right arrow key replaces
  time by the double nearest to time - MANUAL_TIME_STEP or time + MANUAL_TIME_STEP, where
  MANUAL_TIME_STEP is the double nearest to 0.1 (so the change is 0.1 up to rounding, not
  exactly); when pause is not set these two keys change nothing. No other key event
  changes time or pause. A round of the loop whose events leave pause set adds nothing
  to time whatever the two readings of the wall clock are (time then changes by the
  manual steps of that round only), a round that ends with pause not set adds the
  rounded difference of the two readings; so any number of rounds without key events
  leaves time unchanged while pause is set.
\<close>

theorem pause_and_manual_steps:
  "(key_callback env key action ap = Inr (ap', evs) \<longrightarrow>
      (time ap', pause ap') = key_effect (time ap, pause ap) (key, action)) \<and>
   (poll_events env keys ap = Inr (ap', evs) \<longrightarrow>
      (time ap', pause ap') = foldl key_effect (time ap, pause ap) keys) \<and>
   (main_loop_body env keys cur_time (ap, prev_time) = Inr ((ap', prev'), evs) \<longrightarrow>
      (time ap', pause ap', prev') = frame_effect (time ap, pause ap, prev_time) (keys, cur_time)) \<and>
   (main_loop env frames (ap, prev_time) = Inr ((ap', prev'), evs) \<longrightarrow>
      (time ap', pause ap', prev') = foldl frame_effect (time ap, pause ap, prev_time) frames) \<and>
   (action \<noteq> GLFW_PRESS \<longrightarrow> key_callback env key action ap = Inr (ap, [])) \<and>
   (pause ap \<longrightarrow>
      key_callback env GLFW_KEY_LEFT GLFW_PRESS ap =
        Inr (ap\<lparr>time := dbl_sub (time ap) MANUAL_TIME_STEP\<rparr>, []) \<and>
      key_callback env GLFW_KEY_RIGHT GLFW_PRESS ap =
        Inr (ap\<lparr>time := dbl_add (time ap) MANUAL_TIME_STEP\<rparr>, []) \<and>
      advance_clock cur_time (ap, prev_time) = (ap, cur_time) \<and>
      (\<exists>evs. main_loop env (map (\<lambda>t. ([], t)) ts) (ap, prev_time) =
               Inr ((ap, last (prev_time # ts)), evs))) \<and>
   (\<not> pause ap \<longrightarrow>
      key_callback env GLFW_KEY_LEFT GLFW_PRESS ap = Inr (ap, []) \<and>
      key_callback env GLFW_KEY_RIGHT GLFW_PRESS ap = Inr (ap, [])) \<and>
   MANUAL_TIME_STEP = 3602879701896397 / 36028797018963968"
proof -
  have 1: "key_callback env key action ap = Inr (ap', evs) \<longrightarrow>
      (time ap', pause ap') = key_effect (time ap, pause ap) (key, action)"
    using key_callback_clock by blast
  have 2: "poll_events env keys ap = Inr (ap', evs) \<longrightarrow>
      (time ap', pause ap') = foldl key_effect (time ap, pause ap) keys"
    using poll_events_clock by blast
  have 3: "main_loop_body env keys cur_time (ap, prev_time) = Inr ((ap', prev'), evs) \<longrightarrow>
      (time ap', pause ap', prev') = frame_effect (time ap, pause ap, prev_time) (keys, cur_time)"
    using main_loop_body_clock by blast
  have 4: "main_loop env frames (ap, prev_time) = Inr ((ap', prev'), evs) \<longrightarrow>
      (time ap', pause ap', prev') = foldl frame_effect (time ap, pause ap, prev_time) frames"
    using main_loop_clock by blast
  have 5: "action \<noteq> GLFW_PRESS \<longrightarrow> key_callback env key action ap = Inr (ap, [])"
    using key_callback_not_press by blast
  have 6: "pause ap \<longrightarrow>
      key_callback env GLFW_KEY_LEFT GLFW_PRESS ap =
        Inr (ap\<lparr>time := dbl_sub (time ap) MANUAL_TIME_STEP\<rparr>, []) \<and>
      key_callback env GLFW_KEY_RIGHT GLFW_PRESS ap =
        Inr (ap\<lparr>time := dbl_add (time ap) MANUAL_TIME_STEP\<rparr>, []) \<and>
      advance_clock cur_time (ap, prev_time) = (ap, cur_time) \<and>
      (\<exists>evs. main_loop env (map (\<lambda>t. ([], t)) ts) (ap, prev_time) =
               Inr ((ap, last (prev_time # ts)), evs))"
    using key_callback_step_paused [of ap env] main_loop_paused [of ap env ts prev_time]
    by (simp add: advance_clock_def)
  have 7: "\<not> pause ap \<longrightarrow>
      key_callback env GLFW_KEY_LEFT GLFW_PRESS ap = Inr (ap, []) \<and>
      key_callback env GLFW_KEY_RIGHT GLFW_PRESS ap = Inr (ap, [])"
    using key_callback_step_running [of ap env] by blast
  from 1 2 3 4 5 6 7 MANUAL_TIME_STEP_value show ?thesis by blast
qed

theorem pause_and_manual_steps_witness:
  "key_callback env_example GLFW_KEY_RIGHT GLFW_PRESS (app_init\<lparr>pause := True\<rparr>) =
     Inr (app_init\<lparr>pause := True, time := dbl_add 0 MANUAL_TIME_STEP\<rparr>, []) \<and>
   key_effect (0, True) (GLFW_KEY_RIGHT, GLFW_PRESS) = (dbl_add 0 MANUAL_TIME_STEP, True) \<and>
   poll_events env_example
     [(GLFW_KEY_SPACE, GLFW_PRESS), (GLFW_KEY_LEFT, GLFW_PRESS), (GLFW_KEY_LEFT, GLFW_RELEASE)]
     app_init =
     Inr (app_init\<lparr>pause := True, time := dbl_sub 0 MANUAL_TIME_STEP\<rparr>, []) \<and>
   foldl key_effect (0, False)
     [(GLFW_KEY_SPACE, GLFW_PRESS), (GLFW_KEY_LEFT, GLFW_PRESS), (GLFW_KEY_LEFT, GLFW_RELEASE)] =
     (dbl_sub 0 MANUAL_TIME_STEP, True) \<and>
   frame_effect (0, False, 3) ([(GLFW_KEY_SPACE, GLFW_PRESS)], 7) = (0, True, 7) \<and>
   foldl frame_effect (0, True, 3) [([], 7)] = (0, True, 7) \<and>
   key_callback env_example GLFW_KEY_RIGHT GLFW_RELEASE (app_init\<lparr>pause := True\<rparr>) =
     Inr (app_init\<lparr>pause := True\<rparr>, []) \<and>
   advance_clock 7 (app_init\<lparr>pause := True\<rparr>, 3) = (app_init\<lparr>pause := True\<rparr>, 7) \<and>
   key_callback env_example GLFW_KEY_LEFT GLFW_PRESS app_init = Inr (app_init, [])"
proof -
  have t: "time app_init = 0" and p: "\<not> pause app_init"
    by (simp_all add: app_init_def)
  have h1: "key_callback env_example GLFW_KEY_RIGHT GLFW_PRESS (app_init\<lparr>pause := True\<rparr>) =
     Inr (app_init\<lparr>pause := True, time := dbl_add 0 MANUAL_TIME_STEP\<rparr>, [])"
    by (simp add: key_callback_def key_branch_def t)
  have c1: "key_effect (0, True) (GLFW_KEY_RIGHT, GLFW_PRESS) = (dbl_add 0 MANUAL_TIME_STEP, True)"
    using h1 pause_and_manual_steps
      [where env = env_example and key = GLFW_KEY_RIGHT and action = GLFW_PRESS
         and ap = "app_init\<lparr>pause := True\<rparr>"
         and ap' = "app_init\<lparr>pause := True, time := dbl_add 0 MANUAL_TIME_STEP\<rparr>"
         and evs = "[]", THEN conjunct1]
    by (simp add: t)
  have h2: "poll_events env_example
     [(GLFW_KEY_SPACE, GLFW_PRESS), (GLFW_KEY_LEFT, GLFW_PRESS), (GLFW_KEY_LEFT, GLFW_RELEASE)]
     app_init =
     Inr (app_init\<lparr>pause := True, time := dbl_sub 0 MANUAL_TIME_STEP\<rparr>, [])"
    by (simp add: key_callback_def key_branch_def t p)
  have c2: "foldl key_effect (0, False)
     [(GLFW_KEY_SPACE, GLFW_PRESS), (GLFW_KEY_LEFT, GLFW_PRESS), (GLFW_KEY_LEFT, GLFW_RELEASE)] =
     (dbl_sub 0 MANUAL_TIME_STEP, True)"
    using h2 pause_and_manual_steps
      [where env = env_example and ap = app_init
         and keys = "[(GLFW_KEY_SPACE, GLFW_PRESS), (GLFW_KEY_LEFT, GLFW_PRESS),
                      (GLFW_KEY_LEFT, GLFW_RELEASE)]"
         and ap' = "app_init\<lparr>pause := True, time := dbl_sub 0 MANUAL_TIME_STEP\<rparr>"
         and evs = "[]", THEN conjunct2, THEN conjunct1]
    by (simp add: t p)
  have h3: "main_loop_body env_example [(GLFW_KEY_SPACE, GLFW_PRESS)] 7 (app_init, 3) =
     Inr ((app_init\<lparr>pause := True\<rparr>, 7),
          draw_frame env_example app_init @ [GlfwSwapBuffers, GlfwPollEvents])"
    by (simp add: main_loop_body_def key_callback_def key_branch_def advance_clock_def p)
  have c3: "frame_effect (0, False, 3) ([(GLFW_KEY_SPACE, GLFW_PRESS)], 7) = (0, True, 7)"
    using h3 pause_and_manual_steps
      [where env = env_example and ap = app_init and prev_time = 3 and cur_time = 7
         and keys = "[(GLFW_KEY_SPACE, GLFW_PRESS)]"
         and ap' = "app_init\<lparr>pause := True\<rparr>" and prev' = 7
         and evs = "draw_frame env_example app_init @ [GlfwSwapBuffers, GlfwPollEvents]",
       THEN conjunct2, THEN conjunct2, THEN conjunct1]
    by (simp add: t p)
  have h4: "main_loop env_example [([], 7)] (app_init\<lparr>pause := True\<rparr>, 3) =
     Inr ((app_init\<lparr>pause := True\<rparr>, 7),
          draw_frame env_example (app_init\<lparr>pause := True\<rparr>) @ [GlfwSwapBuffers, GlfwPollEvents])"
    by (simp add: main_loop_body_def advance_clock_def)
  have c4: "foldl frame_effect (0, True, 3) [([], 7)] = (0, True, 7)"
    using h4 pause_and_manual_steps
      [where env = env_example and ap = "app_init\<lparr>pause := True\<rparr>" and prev_time = 3
         and frames = "[([], 7)]"
         and ap' = "app_init\<lparr>pause := True\<rparr>" and prev' = 7
         and evs = "draw_frame env_example (app_init\<lparr>pause := True\<rparr>) @
                      [GlfwSwapBuffers, GlfwPollEvents]",
       THEN conjunct2, THEN conjunct2, THEN conjunct2, THEN conjunct1]
    by (simp add: t)
  have c5: "key_callback env_example GLFW_KEY_RIGHT GLFW_RELEASE (app_init\<lparr>pause := True\<rparr>) =
     Inr (app_init\<lparr>pause := True\<rparr>, [])"
    using pause_and_manual_steps
      [where env = env_example and key = GLFW_KEY_RIGHT and action = GLFW_RELEASE
         and ap = "app_init\<lparr>pause := True\<rparr>",
       THEN conjunct2, THEN conjunct2, THEN conjunct2, THEN conjunct2, THEN conjunct1]
    by simp
  have c6: "advance_clock 7 (app_init\<lparr>pause := True\<rparr>, 3) = (app_init\<lparr>pause := True\<rparr>, 7)"
    using pause_and_manual_steps
      [where ap = "app_init\<lparr>pause := True\<rparr>" and cur_time = 7 and prev_time = 3,
       THEN conjunct2, THEN conjunct2, THEN conjunct2, THEN conjunct2, THEN conjunct2,
       THEN conjunct1]
    by simp
  have c7: "key_callback env_example GLFW_KEY_LEFT GLFW_PRESS app_init = Inr (app_init, [])"
    using p pause_and_manual_steps
      [where env = env_example and ap = app_init,
       THEN conjunct2, THEN conjunct2, THEN conjunct2, THEN conjunct2, THEN conjunct2,
       THEN conjunct2, THEN conjunct1]
    by simp
  from h1 c1 h2 c2 c3 c4 c5 c6 c7 show ?thesis by blast
qed

text \<open>
  Claim C9 does not hold on the code for the first round. The clock starts at the
  reading t0 of the wall clock, but prev_time starts at 0.0, so the first round (not
  paused) adds the whole reading t1 and not the time t1 - t0 that has passed since the
  clock was initialised: with t0 = 2 and t1 = 2.5 the clock advances by 2.5.
\<close>

theorem first_frame_counts_startup_time_twice:
  "main_clock_init t0 app_init = (app_init\<lparr>time := t0\<rparr>, 0) \<and>
   time (fst (advance_clock t1 (main_clock_init t0 app_init))) = dbl_add t0 (dbl_sub t1 0) \<and>
   time (fst (advance_clock (5 / 2) (main_clock_init 2 app_init))) -
     time (fst (main_clock_init 2 app_init)) = 5 / 2"
proof -
  have "to_double (5 / 2) = 5 / 2"
    unfolding to_double_def
    by (rule ieee_round_exact [where e = 1 and m = 5629499534213120]) simp_all
  then have a: "dbl_sub (5 / 2) 0 = 5 / 2"
    by (simp add: dbl_sub_def)
  have "to_double (9 / 2) = 9 / 2"
    unfolding to_double_def
    by (rule ieee_round_exact [where e = 2 and m = 5066549580791808]) simp_all
  then have b: "dbl_add 2 (5 / 2) = 9 / 2"
    by (simp add: dbl_add_def)
  have 1: "main_clock_init t0 app_init = (app_init\<lparr>time := t0\<rparr>, 0)"
    by (simp add: main_clock_init_def)
  have 2: "time (fst (advance_clock t1 (main_clock_init t0 app_init))) = dbl_add t0 (dbl_sub t1 0)"
    by (simp add: main_clock_init_def advance_clock_def app_init_def)
  have 3: "time (fst (advance_clock (5 / 2) (main_clock_init 2 app_init))) -
     time (fst (main_clock_init 2 app_init)) = 5 / 2"
    by (simp add: main_clock_init_def advance_clock_def app_init_def a b)
  from 1 2 3 show ?thesis by blast
qed

section \<open>The render configuration: the scan refines the reading as text\<close>

subsection \<open>String views as lists of characters\<close>

lemma sv_chars_length:
  "sv_data sv + sv_count sv \<le> length mem \<Longrightarrow> length (sv_chars mem sv) = sv_count sv"
  by (simp add: sv_chars_def)

lemma sv_chars_nth:
  "sv_data sv + sv_count sv \<le> length mem \<Longrightarrow> i < sv_count sv \<Longrightarrow>
   sv_chars mem sv ! i = mem ! (sv_data sv + i)"
  by (simp add: sv_chars_def)

lemma takeWhile_drop_step:
  "i < length xs \<Longrightarrow> P (xs ! i) \<Longrightarrow>
   length (takeWhile P (drop i xs)) = Suc (length (takeWhile P (drop (Suc i) xs)))"
  by (simp add: Cons_nth_drop_Suc [symmetric])

lemma takeWhile_drop_stop:
  "i < length xs \<Longrightarrow> \<not> P (xs ! i) \<Longrightarrow> takeWhile P (drop i xs) = []"
  by (simp add: Cons_nth_drop_Suc [symmetric])

lemma chop_scan_eq:
  "sv_data sv + sv_count sv \<le> length mem \<Longrightarrow> i \<le> sv_count sv \<Longrightarrow>
   chop_scan mem sv delim i = i + length (takeWhile (\<lambda>c. c \<noteq> delim) (drop i (sv_chars mem sv)))"
proof (induction mem sv delim i rule: chop_scan.induct)
  case (1 mem sv delim i)
  show ?case
  proof (cases "i < sv_count sv \<and> mem ! (sv_data sv + i) \<noteq> delim")
    case True
    then have lt: "i < length (sv_chars mem sv)" and ne: "sv_chars mem sv ! i \<noteq> delim"
      using "1.prems" by (simp_all add: sv_chars_length sv_chars_nth)
    have "chop_scan mem sv delim i = chop_scan mem sv delim (i + 1)"
      by (subst chop_scan.simps) (simp only: True simp_thms if_True)
    also have "\<dots> = (i + 1) + length (takeWhile (\<lambda>c. c \<noteq> delim) (drop (i + 1) (sv_chars mem sv)))"
    proof (rule "1.IH" [OF True])
      show "sv_data sv + sv_count sv \<le> length mem" using "1.prems" by simp
      show "i + 1 \<le> sv_count sv" using True by simp
    qed
    also have "\<dots> = i + length (takeWhile (\<lambda>c. c \<noteq> delim) (drop i (sv_chars mem sv)))"
      using takeWhile_drop_step [of i "sv_chars mem sv" "\<lambda>c. c \<noteq> delim", OF lt ne] by simp
    finally show ?thesis .
  next
    case False
    have stop: "chop_scan mem sv delim i = i"
      by (subst chop_scan.simps) (simp only: False simp_thms if_False)
    show ?thesis
    proof (cases "i < sv_count sv")
      case True
      with False have "\<not> (sv_chars mem sv ! i \<noteq> delim)" and "i < length (sv_chars mem sv)"
        using "1.prems" by (simp_all add: sv_chars_length sv_chars_nth)
      then have "takeWhile (\<lambda>c. c \<noteq> delim) (drop i (sv_chars mem sv)) = []"
        using takeWhile_drop_stop [of i "sv_chars mem sv" "\<lambda>c. c \<noteq> delim"] by simp
      with stop show ?thesis by simp
    next
      case False
      then have "drop i (sv_chars mem sv) = []"
        using "1.prems" by (simp add: sv_chars_length)
      with stop show ?thesis by simp
    qed
  qed
qed

lemma trim_left_scan_eq:
  "sv_data sv + sv_count sv \<le> length mem \<Longrightarrow> i \<le> sv_count sv \<Longrightarrow>
   trim_left_scan mem sv i = i + length (takeWhile isspace (drop i (sv_chars mem sv)))"
proof (induction mem sv i rule: trim_left_scan.induct)
  case (1 mem sv i)
  show ?case
  proof (cases "i < sv_count sv \<and> isspace (mem ! (sv_data sv + i))")
    case True
    then have lt: "i < length (sv_chars mem sv)" and sp: "isspace (sv_chars mem sv ! i)"
      using "1.prems" by (simp_all add: sv_chars_length sv_chars_nth)
    have "trim_left_scan mem sv i = trim_left_scan mem sv (i + 1)"
      by (subst trim_left_scan.simps) (simp only: True simp_thms if_True)
    also have "\<dots> = (i + 1) + length (takeWhile isspace (drop (i + 1) (sv_chars mem sv)))"
    proof (rule "1.IH" [OF True])
      show "sv_data sv + sv_count sv \<le> length mem" using "1.prems" by simp
      show "i + 1 \<le> sv_count sv" using True by simp
    qed
    also have "\<dots> = i + length (takeWhile isspace (drop i (sv_chars mem sv)))"
      using takeWhile_drop_step [of i "sv_chars mem sv" isspace, OF lt sp] by simp
    finally show ?thesis .
  next
    case False
    have stop: "trim_left_scan mem sv i = i"
      by (subst trim_left_scan.simps) (simp only: False simp_thms if_False)
    show ?thesis
    proof (cases "i < sv_count sv")
      case True
      with False have "\<not> isspace (sv_chars mem sv ! i)" and "i < length (sv_chars mem sv)"
        using "1.prems" by (simp_all add: sv_chars_length sv_chars_nth)
      then have "takeWhile isspace (drop i (sv_chars mem sv)) = []"
        using takeWhile_drop_stop [of i "sv_chars mem sv" isspace] by simp
      with stop show ?thesis by simp
    next
      case False
      then have "drop i (sv_chars mem sv) = []"
        using "1.prems" by (simp add: sv_chars_length)
      with stop show ?thesis by simp
    qed
  qed
qed

lemma trim_right_scan_eq:
  "sv_data sv + sv_count sv \<le> length mem \<Longrightarrow> i \<le> sv_count sv \<Longrightarrow>
   trim_right_scan mem sv i = i + length (takeWhile isspace (drop i (rev (sv_chars mem sv))))"
proof (induction mem sv i rule: trim_right_scan.induct)
  case (1 mem sv i)
  have len: "length (sv_chars mem sv) = sv_count sv"
    using "1.prems" by (simp add: sv_chars_length)
  have nth: "rev (sv_chars mem sv) ! i = mem ! (sv_data sv + (sv_count sv - 1 - i))" if "i < sv_count sv"
    using that "1.prems" by (simp add: rev_nth len sv_chars_nth)
  show ?case
  proof (cases "i < sv_count sv \<and> isspace (mem ! (sv_data sv + (sv_count sv - 1 - i)))")
    case True
    then have i: "i < sv_count sv" and m: "isspace (mem ! (sv_data sv + (sv_count sv - 1 - i)))"
      by blast+
    have lt: "i < length (rev (sv_chars mem sv))" using i len by simp
    have sp: "isspace (rev (sv_chars mem sv) ! i)" using m by (simp only: nth [OF i] simp_thms)
    have "trim_right_scan mem sv i = trim_right_scan mem sv (i + 1)"
      by (subst trim_right_scan.simps) (simp only: True simp_thms if_True)
    also have "\<dots> = (i + 1) + length (takeWhile isspace (drop (i + 1) (rev (sv_chars mem sv))))"
    proof (rule "1.IH" [OF True])
      show "sv_data sv + sv_count sv \<le> length mem" using "1.prems" by simp
      show "i + 1 \<le> sv_count sv" using True by simp
    qed
    also have "\<dots> = i + length (takeWhile isspace (drop i (rev (sv_chars mem sv))))"
      using takeWhile_drop_step [of i "rev (sv_chars mem sv)" isspace, OF lt sp] by simp
    finally show ?thesis .
  next
    case False
    have stop: "trim_right_scan mem sv i = i"
      by (subst trim_right_scan.simps) (simp only: False simp_thms if_False)
    show ?thesis
    proof (cases "i < sv_count sv")
      case True
      with False have "\<not> isspace (mem ! (sv_data sv + (sv_count sv - 1 - i)))" by blast
      then have "\<not> isspace (rev (sv_chars mem sv) ! i)" by (simp only: nth [OF True] simp_thms)
      moreover have "i < length (rev (sv_chars mem sv))" using True len by simp
      ultimately have "\<not> isspace (rev (sv_chars mem sv) ! i)" and "i < length (rev (sv_chars mem sv))"
        by blast+
      then have "takeWhile isspace (drop i (rev (sv_chars mem sv))) = []"
        using takeWhile_drop_stop [of i "rev (sv_chars mem sv)" isspace] by simp
      with stop show ?thesis by simp
    next
      case False
      then have "drop i (rev (sv_chars mem sv)) = []"
        using len by simp
      with stop show ?thesis by simp
    qed
  qed
qed

lemma sv_chars_shift:
  "k \<le> c \<Longrightarrow>
   sv_chars mem \<lparr>sv_count = c - k, sv_data = d + k\<rparr> = drop k (sv_chars mem \<lparr>sv_count = c, sv_data = d\<rparr>)"
  by (simp add: sv_chars_def drop_take add.commute)

lemma sv_chars_prefix:
  "sv_chars mem \<lparr>sv_count = k, sv_data = d\<rparr> = take k (drop d mem)"
  by (simp add: sv_chars_def)

lemma sv_chars_take:
  "k \<le> sv_count sv \<Longrightarrow>
   sv_chars mem \<lparr>sv_count = k, sv_data = sv_data sv\<rparr> = take k (sv_chars mem sv)"
  by (simp add: sv_chars_def min_def)

lemma sv_chars_drop:
  "k \<le> sv_count sv \<Longrightarrow>
   sv_chars mem \<lparr>sv_count = sv_count sv - k, sv_data = sv_data sv + k\<rparr> = drop k (sv_chars mem sv)"
  by (simp add: sv_chars_def drop_take add.commute)

lemma takeWhile_length_le: "length (takeWhile P xs) \<le> length xs"
  by (rule length_takeWhile_le)

text \<open>sv_trim_left\<close>

lemma sv_trim_left_facts:
  assumes wf: "sv_data sv + sv_count sv \<le> length mem"
  shows "sv_data (sv_trim_left mem sv) = sv_data sv + length (takeWhile isspace (sv_chars mem sv))"
    and "sv_data (sv_trim_left mem sv) + sv_count (sv_trim_left mem sv) = sv_data sv + sv_count sv"
    and "sv_chars mem (sv_trim_left mem sv) = dropWhile isspace (sv_chars mem sv)"
proof -
  let ?xs = "sv_chars mem sv"
  let ?k = "length (takeWhile isspace ?xs)"
  have scan: "trim_left_scan mem sv 0 = ?k"
    using trim_left_scan_eq [OF wf, of 0] by simp
  have k: "?k \<le> sv_count sv"
    using length_takeWhile_le [of isspace ?xs] sv_chars_length [OF wf] by simp
  show "sv_data (sv_trim_left mem sv) = sv_data sv + ?k"
    by (simp add: sv_trim_left_def Let_def scan)
  show "sv_data (sv_trim_left mem sv) + sv_count (sv_trim_left mem sv) = sv_data sv + sv_count sv"
    using k by (simp add: sv_trim_left_def Let_def scan)
  have "sv_trim_left mem sv = \<lparr>sv_count = sv_count sv - ?k, sv_data = sv_data sv + ?k\<rparr>"
    by (simp add: sv_trim_left_def Let_def scan)
  then have "sv_chars mem (sv_trim_left mem sv) =
      sv_chars mem \<lparr>sv_count = sv_count sv - ?k, sv_data = sv_data sv + ?k\<rparr>"
    by (simp only:)
  also have "\<dots> = drop ?k ?xs"
    by (rule sv_chars_drop [OF k])
  finally show "sv_chars mem (sv_trim_left mem sv) = dropWhile isspace ?xs"
    by (simp add: dropWhile_eq_drop)
qed

text \<open>sv_trim_right\<close>

lemma rev_dropWhile_rev:
  "rev (dropWhile P (rev xs)) = take (length xs - length (takeWhile P (rev xs))) xs"
proof -
  have "dropWhile P (rev xs) = drop (length (takeWhile P (rev xs))) (rev xs)"
    by (rule dropWhile_eq_drop)
  also have "\<dots> = rev (take (length xs - length (takeWhile P (rev xs))) xs)"
    by (rule drop_rev)
  finally show ?thesis by (simp only: rev_rev_ident)
qed

lemma sv_trim_right_facts:
  assumes wf: "sv_data sv + sv_count sv \<le> length mem"
  shows "sv_data (sv_trim_right mem sv) = sv_data sv"
    and "sv_count (sv_trim_right mem sv) \<le> sv_count sv"
    and "sv_chars mem (sv_trim_right mem sv) = rev (dropWhile isspace (rev (sv_chars mem sv)))"
proof -
  let ?xs = "sv_chars mem sv"
  let ?k = "length (takeWhile isspace (rev ?xs))"
  have scan: "trim_right_scan mem sv 0 = ?k"
    using trim_right_scan_eq [OF wf, of 0] by simp
  have len: "length ?xs = sv_count sv" by (rule sv_chars_length [OF wf])
  show "sv_data (sv_trim_right mem sv) = sv_data sv"
    by (simp add: sv_trim_right_def Let_def)
  show "sv_count (sv_trim_right mem sv) \<le> sv_count sv"
    by (simp add: sv_trim_right_def Let_def)
  have "sv_trim_right mem sv = \<lparr>sv_count = sv_count sv - ?k, sv_data = sv_data sv\<rparr>"
    by (simp add: sv_trim_right_def Let_def scan)
  then have "sv_chars mem (sv_trim_right mem sv) =
      sv_chars mem \<lparr>sv_count = sv_count sv - ?k, sv_data = sv_data sv\<rparr>"
    by (simp only:)
  also have "\<dots> = take (sv_count sv - ?k) ?xs"
    by (rule sv_chars_take) simp
  finally have "sv_chars mem (sv_trim_right mem sv) = take (sv_count sv - ?k) ?xs" .
  then show "sv_chars mem (sv_trim_right mem sv) = rev (dropWhile isspace (rev ?xs))"
    by (simp add: rev_dropWhile_rev len)
qed

text \<open>sv_chop_by_delim\<close>

lemma sv_chop_by_delim_facts:
  assumes wf: "sv_data sv + sv_count sv \<le> length mem"
  shows "sv_data (fst (sv_chop_by_delim mem sv delim)) = sv_data sv"
    and "sv_count (fst (sv_chop_by_delim mem sv delim)) =
           length (takeWhile (\<lambda>c. c \<noteq> delim) (sv_chars mem sv))"
    and "sv_chars mem (fst (sv_chop_by_delim mem sv delim)) =
           takeWhile (\<lambda>c. c \<noteq> delim) (sv_chars mem sv)"
    and "sv_data (snd (sv_chop_by_delim mem sv delim)) + sv_count (snd (sv_chop_by_delim mem sv delim)) =
           sv_data sv + sv_count sv"
    and "sv_chars mem (snd (sv_chop_by_delim mem sv delim)) =
           drop 1 (dropWhile (\<lambda>c. c \<noteq> delim) (sv_chars mem sv))"
    and "sv_data (snd (sv_chop_by_delim mem sv delim)) =
           sv_data sv + length (takeWhile (\<lambda>c. c \<noteq> delim) (sv_chars mem sv)) +
           (if length (takeWhile (\<lambda>c. c \<noteq> delim) (sv_chars mem sv)) < sv_count sv then 1 else 0)"
proof -
  let ?xs = "sv_chars mem sv"
  let ?i = "length (takeWhile (\<lambda>c. c \<noteq> delim) ?xs)"
  have scan: "chop_scan mem sv delim 0 = ?i"
    using chop_scan_eq [OF wf, of 0 delim] by simp
  have len: "length ?xs = sv_count sv" by (rule sv_chars_length [OF wf])
  have i: "?i \<le> sv_count sv"
    using length_takeWhile_le [of "\<lambda>c. c \<noteq> delim" ?xs] len by simp
  show "sv_data (fst (sv_chop_by_delim mem sv delim)) = sv_data sv"
    by (simp add: sv_chop_by_delim_def Let_def)
  show "sv_count (fst (sv_chop_by_delim mem sv delim)) = ?i"
    by (simp add: sv_chop_by_delim_def Let_def scan)
  have "fst (sv_chop_by_delim mem sv delim) = \<lparr>sv_count = ?i, sv_data = sv_data sv\<rparr>"
    by (simp add: sv_chop_by_delim_def Let_def scan)
  then have "sv_chars mem (fst (sv_chop_by_delim mem sv delim)) =
      sv_chars mem \<lparr>sv_count = ?i, sv_data = sv_data sv\<rparr>"
    by (simp only:)
  also have "\<dots> = take ?i ?xs"
    by (rule sv_chars_take [OF i])
  finally have "sv_chars mem (fst (sv_chop_by_delim mem sv delim)) = take ?i ?xs" .
  then show "sv_chars mem (fst (sv_chop_by_delim mem sv delim)) = takeWhile (\<lambda>c. c \<noteq> delim) ?xs"
    by (simp add: takeWhile_eq_take [symmetric])
  show "sv_data (snd (sv_chop_by_delim mem sv delim)) + sv_count (snd (sv_chop_by_delim mem sv delim)) =
           sv_data sv + sv_count sv"
    using i by (simp add: sv_chop_by_delim_def Let_def scan)
  show "sv_data (snd (sv_chop_by_delim mem sv delim)) =
           sv_data sv + ?i + (if ?i < sv_count sv then 1 else 0)"
    by (simp add: sv_chop_by_delim_def Let_def scan)
  show "sv_chars mem (snd (sv_chop_by_delim mem sv delim)) = drop 1 (dropWhile (\<lambda>c. c \<noteq> delim) ?xs)"
  proof (cases "?i < sv_count sv")
    case True
    then have "Suc ?i \<le> sv_count sv" by simp
    have "snd (sv_chop_by_delim mem sv delim) =
        \<lparr>sv_count = sv_count sv - Suc ?i, sv_data = sv_data sv + Suc ?i\<rparr>"
      using True by (simp add: sv_chop_by_delim_def Let_def scan)
    then have "sv_chars mem (snd (sv_chop_by_delim mem sv delim)) =
        sv_chars mem \<lparr>sv_count = sv_count sv - Suc ?i, sv_data = sv_data sv + Suc ?i\<rparr>"
      by (simp only:)
    also have "\<dots> = drop (Suc ?i) ?xs"
      by (rule sv_chars_drop) fact
    finally show ?thesis by (simp add: dropWhile_eq_drop)
  next
    case False
    with i have eq: "?i = sv_count sv" by simp
    have "sv_chars mem (snd (sv_chop_by_delim mem sv delim)) = []"
      using False by (simp add: sv_chop_by_delim_def Let_def scan sv_chars_def)
    moreover have "dropWhile (\<lambda>c. c \<noteq> delim) ?xs = drop ?i ?xs"
      by (rule dropWhile_eq_drop)
    moreover have "drop ?i ?xs = []"
      using eq len by simp
    ultimately show ?thesis by (simp only: drop.simps)
  qed
qed

text \<open>The effect of a write on views and C strings\<close>

lemma take_drop_as_drop_take: "take n (drop d xs) = drop d (take (d + n) xs)"
  by (simp add: drop_take)

lemma sv_chars_update_after:
  "sv_data sv + sv_count sv \<le> e \<Longrightarrow> sv_chars (mem[e := c]) sv = sv_chars mem sv"
  by (simp add: sv_chars_def take_drop_as_drop_take)

lemma sv_chars_update_before:
  "e < sv_data sv \<Longrightarrow> sv_chars (mem[e := c]) sv = sv_chars mem sv"
  by (simp add: sv_chars_def)

subsection \<open>C strings in the buffer\<close>

lemma cstr_at_eqI:
  assumes "q + n < length mem"
    and "\<And>i. i < n \<Longrightarrow> mem ! (q + i) \<noteq> NUL"
    and "mem ! (q + n) = NUL"
  shows "cstr_at mem q = take n (drop q mem)"
  unfolding cstr_at_def
proof (rule takeWhile_eq_take_P_nth)
  fix i assume "i < n" "i < length (drop q mem)"
  then show "drop q mem ! i \<noteq> NUL" using assms by simp
next
  assume "n < length (drop q mem)"
  show "\<not> drop q mem ! n \<noteq> NUL" using assms by simp
qed

lemma cstr_at_nth:
  assumes "i < length (cstr_at mem q)"
  shows "mem ! (q + i) \<noteq> NUL"
proof -
  have "i < length (takeWhile (\<lambda>c. c \<noteq> NUL) (drop q mem))"
    using assms by (simp add: cstr_at_def)
  then have a: "takeWhile (\<lambda>c. c \<noteq> NUL) (drop q mem) ! i \<noteq> NUL"
    using nth_mem set_takeWhileD by fastforce
  have "i < length (drop q mem)"
    using \<open>i < length (takeWhile (\<lambda>c. c \<noteq> NUL) (drop q mem))\<close>
      length_takeWhile_le [of "\<lambda>c. c \<noteq> NUL" "drop q mem"] by linarith
  moreover have "takeWhile (\<lambda>c. c \<noteq> NUL) (drop q mem) ! i = drop q mem ! i"
    using \<open>i < length (takeWhile (\<lambda>c. c \<noteq> NUL) (drop q mem))\<close> by (rule takeWhile_nth)
  ultimately show ?thesis using a by simp
qed

lemma cstr_at_end:
  assumes "q + length (cstr_at mem q) < length mem"
  shows "mem ! (q + length (cstr_at mem q)) = NUL"
proof -
  have "length (takeWhile (\<lambda>c. c \<noteq> NUL) (drop q mem)) < length (drop q mem)"
    using assms by (simp add: cstr_at_def)
  from nth_length_takeWhile [OF this]
  have "\<not> drop q mem ! length (takeWhile (\<lambda>c. c \<noteq> NUL) (drop q mem)) \<noteq> NUL" .
  then show ?thesis using assms by (simp add: cstr_at_def)
qed

lemma cstr_at_update_after:
  assumes e: "q + length (cstr_at mem q) < e" and l: "q + length (cstr_at mem q) < length mem"
  shows "cstr_at (mem[e := c]) q = cstr_at mem q"
proof -
  let ?n = "length (cstr_at mem q)"
  have "cstr_at (mem[e := c]) q = take ?n (drop q (mem[e := c]))"
  proof (rule cstr_at_eqI)
    show "q + ?n < length (mem[e := c])" using l by simp
    show "mem[e := c] ! (q + i) \<noteq> NUL" if "i < ?n" for i
      using that e cstr_at_nth [of i mem q] by simp
    show "mem[e := c] ! (q + ?n) = NUL"
      using e cstr_at_end [OF l] by simp
  qed
  also have "\<dots> = take ?n (drop q mem)"
    using e by (simp add: take_drop_as_drop_take)
  also have "\<dots> = cstr_at mem q"
    using cstr_at_eqI [of q ?n mem] l cstr_at_nth [of _ mem q] cstr_at_end [OF l] by simp
  finally show ?thesis .
qed

lemma cstr_at_new:
  assumes e: "sv_data v + sv_count v < length mem"
    and nn: "NUL \<notin> set (sv_chars mem v)"
  shows "cstr_at (mem[sv_data v + sv_count v := NUL]) (sv_data v) = sv_chars mem v"
proof -
  let ?mem' = "mem[sv_data v + sv_count v := NUL]"
  have wf: "sv_data v + sv_count v \<le> length mem" using e by simp
  have "cstr_at ?mem' (sv_data v) = take (sv_count v) (drop (sv_data v) ?mem')"
  proof (rule cstr_at_eqI)
    show "sv_data v + sv_count v < length ?mem'" using e by simp
    show "?mem' ! (sv_data v + i) \<noteq> NUL" if "i < sv_count v" for i
    proof -
      have "sv_chars mem v ! i \<in> set (sv_chars mem v)"
        using that sv_chars_length [OF wf] by simp
      then have "sv_chars mem v ! i \<noteq> NUL" using nn by metis
      then show ?thesis using that sv_chars_nth [OF wf that] by simp
    qed
    show "?mem' ! (sv_data v + sv_count v) = NUL" using e by simp
  qed
  also have "\<dots> = sv_chars ?mem' v" by (simp add: sv_chars_def)
  also have "\<dots> = sv_chars mem v" by (rule sv_chars_update_after) simp
  finally show ?thesis .
qed

lemma path_ok_update:
  assumes "path_ok mem bound p" "bound \<le> e" "bound \<le> length mem" "e < b'"
  shows "path_ok (mem[e := c]) b' p \<and> map_option (cstr_at (mem[e := c])) p = map_option (cstr_at mem) p"
proof (cases p)
  case None
  then show ?thesis by (simp add: path_ok_def)
next
  case (Some q)
  with assms have lt: "q + length (cstr_at mem q) < bound" by (simp add: path_ok_def)
  have "cstr_at (mem[e := c]) q = cstr_at mem q"
    by (rule cstr_at_update_after) (use lt assms in simp_all)
  then show ?thesis using Some lt assms by (simp add: path_ok_def)
qed

lemma path_ok_mono:
  "path_ok mem bound p \<Longrightarrow> bound \<le> b' \<Longrightarrow> path_ok mem b' p"
  by (cases p) (simp_all add: path_ok_def)

lemma takeWhile_isspace_key:
  "takeWhile isspace (takeWhile Q (dropWhile isspace xs)) = []"
proof (cases "dropWhile isspace xs")
  case Nil
  show ?thesis unfolding Nil by simp
next
  case (Cons y ys)
  then have "\<not> isspace y" using hd_dropWhile [of isspace xs] by force
  then show ?thesis unfolding Cons by simp
qed

lemma line_facts:
  assumes le: "sv_data line0 + sv_count line0 < length mem"
  defines "line \<equiv> sv_trim_left mem line0"
  defines "l \<equiv> trim_left (sv_chars mem line0)"
  defines "key \<equiv> sv_trim mem (fst (sv_chop_by_delim mem line (CHR ''='')))"
  defines "val \<equiv> sv_trim_left mem (snd (sv_chop_by_delim mem line (CHR ''='')))"
  shows "sv_chars mem line = l"
    and "(sv_count line > 0 \<and> mem ! sv_data line \<noteq> CHR ''#'') = (\<not> (l = [] \<or> hd l = CHR ''#''))"
    and "sv_chars mem key = trim (takeWhile (\<lambda>c. c \<noteq> CHR ''='') l)"
    and "sv_chars mem val = trim_left (drop 1 (dropWhile (\<lambda>c. c \<noteq> CHR ''='') l))"
    and "sv_data val + sv_count val = sv_data line0 + sv_count line0"
    and "sv_data key + sv_count key \<le> sv_data line0 + sv_count line0"
    and "int (sv_data key) - int (sv_data line0) = int (length (takeWhile isspace (sv_chars mem line0)))"
proof -
  have wf0: "sv_data line0 + sv_count line0 \<le> length mem" using le by simp
  note tl = sv_trim_left_facts [OF wf0]
  have line_end: "sv_data line + sv_count line = sv_data line0 + sv_count line0"
    unfolding line_def by (rule tl(2))
  have wfl: "sv_data line + sv_count line \<le> length mem" using line_end wf0 by simp
  show l: "sv_chars mem line = l"
    unfolding line_def l_def trim_left_def by (rule tl(3))
  have len_l: "length l = sv_count line"
    using sv_chars_length [OF wfl] l by simp
  show "(sv_count line > 0 \<and> mem ! sv_data line \<noteq> CHR ''#'') = (\<not> (l = [] \<or> hd l = CHR ''#''))"
  proof (cases "sv_count line > 0")
    case True
    then have "l \<noteq> []" using len_l by auto
    moreover have "hd l = mem ! sv_data line"
      using sv_chars_nth [OF wfl True] l \<open>l \<noteq> []\<close> by (simp add: hd_conv_nth)
    ultimately show ?thesis using True by simp
  next
    case False
    then have "l = []" using len_l by simp
    with False show ?thesis by simp
  qed
  note ch = sv_chop_by_delim_facts [OF wfl, of "CHR ''=''"]
  let ?k0 = "fst (sv_chop_by_delim mem line (CHR ''=''))"
  let ?r0 = "snd (sv_chop_by_delim mem line (CHR ''=''))"
  have k0_end: "sv_data ?k0 + sv_count ?k0 \<le> sv_data line + sv_count line"
    using ch(1) ch(2) length_takeWhile_le [of "\<lambda>c. c \<noteq> CHR ''=''" "sv_chars mem line"]
      sv_chars_length [OF wfl] by simp
  have wfk0: "sv_data ?k0 + sv_count ?k0 \<le> length mem" using k0_end wfl by simp
  have wfr0: "sv_data ?r0 + sv_count ?r0 \<le> length mem" using ch(4) wfl by simp
  note tk = sv_trim_left_facts [OF wfk0]
  have wfk1: "sv_data (sv_trim_left mem ?k0) + sv_count (sv_trim_left mem ?k0) \<le> length mem"
    using tk(2) wfk0 by simp
  note trk = sv_trim_right_facts [OF wfk1]
  show "sv_chars mem key = trim (takeWhile (\<lambda>c. c \<noteq> CHR ''='') l)"
    unfolding key_def sv_trim_def trk(3) tk(3) ch(3) l trim_def trim_left_def trim_right_def ..
  note tv = sv_trim_left_facts [OF wfr0]
  show "sv_chars mem val = trim_left (drop 1 (dropWhile (\<lambda>c. c \<noteq> CHR ''='') l))"
    unfolding val_def tv(3) ch(5) l trim_left_def ..
  show "sv_data val + sv_count val = sv_data line0 + sv_count line0"
    unfolding val_def using tv(2) ch(4) line_end by simp
  show "sv_data key + sv_count key \<le> sv_data line0 + sv_count line0"
    unfolding key_def sv_trim_def using trk(1) trk(2) tk(2) k0_end line_end by simp
  have "sv_data key = sv_data (sv_trim_left mem ?k0)"
    unfolding key_def sv_trim_def by (rule trk(1))
  also have "\<dots> = sv_data ?k0 + length (takeWhile isspace (sv_chars mem ?k0))"
    by (rule tk(1))
  also have "takeWhile isspace (sv_chars mem ?k0) = []"
    unfolding ch(3) l l_def trim_left_def by (rule takeWhile_isspace_key)
  finally have "sv_data key = sv_data line" using ch(1) by simp
  also have "\<dots> = sv_data line0 + length (takeWhile isspace (sv_chars mem line0))"
    unfolding line_def by (rule tl(1))
  finally show "int (sv_data key) - int (sv_data line0) = int (length (takeWhile isspace (sv_chars mem line0)))"
    by simp
qed

subsection \<open>One line, the loop, the whole function\<close>

lemma conf_line_step:
  assumes le: "sv_data line0 + sv_count line0 < length (scan_mem st)"
    and nn: "NUL \<notin> set (sv_chars (scan_mem st) line0)"
    and ok: "path_ok (scan_mem st) (sv_data line0) (scan_vert st)"
            "path_ok (scan_mem st) (sv_data line0) (scan_frag st)"
            "path_ok (scan_mem st) (sv_data line0) (scan_texture st)"
  shows "scan_view (conf_line path row line0 st) =
           line_step path row (sv_chars (scan_mem st) line0) (scan_view st)"
    and "path_ok (scan_mem (conf_line path row line0 st)) (Suc (sv_data line0 + sv_count line0))
           (scan_vert (conf_line path row line0 st))"
    and "path_ok (scan_mem (conf_line path row line0 st)) (Suc (sv_data line0 + sv_count line0))
           (scan_frag (conf_line path row line0 st))"
    and "path_ok (scan_mem (conf_line path row line0 st)) (Suc (sv_data line0 + sv_count line0))
           (scan_texture (conf_line path row line0 st))"
    and "scan_mem (conf_line path row line0 st) = scan_mem st \<or>
         scan_mem (conf_line path row line0 st) =
           (scan_mem st)[sv_data line0 + sv_count line0 := NUL]"
proof -
  let ?mem = "scan_mem st"
  let ?le = "sv_data line0 + sv_count line0"
  let ?xs = "sv_chars ?mem line0"
  let ?line = "sv_trim_left ?mem line0"
  let ?l = "trim_left ?xs"
  let ?key = "sv_trim ?mem (fst (sv_chop_by_delim ?mem ?line (CHR ''='')))"
  let ?val = "sv_trim_left ?mem (snd (sv_chop_by_delim ?mem ?line (CHR ''='')))"
  let ?ks = "trim (takeWhile (\<lambda>c. c \<noteq> CHR ''='') ?l)"
  let ?vs = "trim_left (drop 1 (dropWhile (\<lambda>c. c \<noteq> CHR ''='') ?l))"
  let ?mem' = "?mem[?le := NUL]"
  let ?st' = "conf_line path row line0 st"
  note lf = line_facts [OF le]
  have bound: "sv_data line0 \<le> ?le" "sv_data line0 \<le> length ?mem" "?le < Suc ?le"
    using le by simp_all
  have all: "scan_view ?st' = line_step path row ?xs (scan_view st) \<and>
      path_ok (scan_mem ?st') (Suc ?le) (scan_vert ?st') \<and>
      path_ok (scan_mem ?st') (Suc ?le) (scan_frag ?st') \<and>
      path_ok (scan_mem ?st') (Suc ?le) (scan_texture ?st') \<and>
      (scan_mem ?st' = ?mem \<or> scan_mem ?st' = ?mem')"
  proof (cases "?l = [] \<or> hd ?l = CHR ''#''")
    case True
    have ncond: "\<not> (0 < sv_count ?line \<and> ?mem ! sv_data ?line \<noteq> CHR ''#'')"
      using True lf(2) by blast
    have skip: "?st' = st"
      unfolding conf_line_def Let_def by (simp only: ncond if_False)
    have "line_entry ?xs = None"
      using True by (simp add: line_entry_def Let_def)
    then have "line_step path row ?xs (scan_view st) = scan_view st"
      by (simp add: line_step_def)
    then show ?thesis
      unfolding skip using ok bound by (simp add: path_ok_mono)
  next
    case False
    have cond: "0 < sv_count ?line \<and> ?mem ! sv_data ?line \<noteq> CHR ''#''"
      using False lf(2) by simp
    have entry: "line_entry ?xs = Some (?ks, ?vs)"
      using False by (simp add: line_entry_def Let_def)
    have val_end: "sv_data ?val + sv_count ?val = ?le" by (rule lf(5))
    have wfv: "sv_data ?val + sv_count ?val \<le> length ?mem" using val_end le by simp
    have wfk: "sv_data ?key + sv_count ?key \<le> length ?mem" using lf(6) le by simp
    have key_chars: "sv_chars ?mem' ?key = ?ks"
      using sv_chars_update_after [OF lf(6), of ?mem NUL] lf(3) by simp
    have key_len: "length ?ks = sv_count ?key"
      using sv_chars_length [OF wfk] lf(3) by simp
    have eq: "sv_eq ?mem' ?key lit = (?ks = lit)" for lit
      unfolding sv_eq_def key_chars using key_len by auto
    have "set ?vs \<subseteq> set ?xs"
    proof -
      have "set ?vs \<subseteq> set (drop 1 (dropWhile (\<lambda>c. c \<noteq> CHR ''='') ?l))"
        unfolding trim_left_def by (auto dest: set_dropWhileD)
      also have "\<dots> \<subseteq> set (dropWhile (\<lambda>c. c \<noteq> CHR ''='') ?l)"
        by (rule set_drop_subset)
      also have "\<dots> \<subseteq> set ?l" by (auto dest: set_dropWhileD)
      also have "\<dots> \<subseteq> set ?xs" unfolding trim_left_def by (auto dest: set_dropWhileD)
      finally show ?thesis .
    qed
    then have "NUL \<notin> set (sv_chars ?mem ?val)" using nn lf(4) by auto
    from cstr_at_new [of ?val ?mem, OF _ this]
    have val_str: "cstr_at ?mem' (sv_data ?val) = ?vs"
      using val_end le lf(4) by simp
    have val_ok: "path_ok ?mem' (Suc ?le) (Some (sv_data ?val))"
      using val_str val_end sv_chars_length [OF wfv] lf(4) by (simp add: path_ok_def)
    note old = path_ok_update [OF ok(1) bound, of NUL] path_ok_update [OF ok(2) bound, of NUL]
      path_ok_update [OF ok(3) bound, of NUL]
    have st': "?st' =
        (if ?ks = ''vert'' then
           st\<lparr>scan_mem := ?mem', scan_vert := Some (sv_data ?val),
              scan_out := scan_out st @ [Stdout (Vertex_Path ?vs)]\<rparr>
         else if ?ks = ''frag'' then
           st\<lparr>scan_mem := ?mem', scan_frag := Some (sv_data ?val),
              scan_out := scan_out st @ [Stdout (Fragment_Path ?vs)]\<rparr>
         else if ?ks = ''texture'' then
           st\<lparr>scan_mem := ?mem', scan_texture := Some (sv_data ?val),
              scan_out := scan_out st @ [Stdout (Texture_Path ?vs)]\<rparr>
         else
           st\<lparr>scan_mem := ?mem',
              scan_out := scan_out st @
                [Stdout (Unsupported_Key path (sint row) (int (length (takeWhile isspace ?xs))) ?ks)]\<rparr>)"
      unfolding conf_line_def Let_def
      by (simp only: cond simp_thms if_True val_end eq val_str key_chars lf(7))
    show ?thesis
      unfolding st' line_step_def entry
      using old val_ok val_str
      by (simp add: scan_view_def)
  qed
  from all show "scan_view ?st' = line_step path row ?xs (scan_view st)" by blast
  from all show "path_ok (scan_mem ?st') (Suc ?le) (scan_vert ?st')" by blast
  from all show "path_ok (scan_mem ?st') (Suc ?le) (scan_frag ?st')" by blast
  from all show "path_ok (scan_mem ?st') (Suc ?le) (scan_texture ?st')" by blast
  from all show "scan_mem ?st' = ?mem \<or> scan_mem ?st' = ?mem'" by blast
qed

lemma conf_lines_Nil: "conf_lines [] = []"
  by (subst conf_lines.simps) simp

lemma conf_lines_Cons:
  "s \<noteq> [] \<Longrightarrow>
   conf_lines s = takeWhile (\<lambda>c. c \<noteq> NL) s # conf_lines (drop 1 (dropWhile (\<lambda>c. c \<noteq> NL) s))"
  by (subst conf_lines.simps) simp

lemma conf_loop_stop: "\<not> 0 < sv_count content \<Longrightarrow> conf_loop path row content st = st"
  by (subst conf_loop.simps) simp

lemma conf_loop_step:
  "0 < sv_count content \<Longrightarrow>
   conf_loop path row content st =
     conf_loop path (row + 1) (snd (sv_chop_by_delim (scan_mem st) content NL))
       (conf_line path row (fst (sv_chop_by_delim (scan_mem st) content NL)) st)"
  by (subst conf_loop.simps) (simp add: Let_def)

lemma conf_loop_refines:
  "scan_inv content st \<Longrightarrow>
   scan_view (conf_loop path row content st) =
     scan_lines path row (conf_lines (sv_chars (scan_mem st) content)) (scan_view st)"
proof (induction path row content st rule: conf_loop.induct)
  case (1 path row content st)
  let ?mem = "scan_mem st"
  let ?xs = "sv_chars ?mem content"
  from "1.prems" have e: "sv_data content + sv_count content < length ?mem"
    and nn: "NUL \<notin> set ?xs"
    and ok: "path_ok ?mem (sv_data content) (scan_vert st)"
      "path_ok ?mem (sv_data content) (scan_frag st)"
      "path_ok ?mem (sv_data content) (scan_texture st)"
    by (simp_all add: scan_inv_def)
  have wf: "sv_data content + sv_count content \<le> length ?mem" using e by simp
  have len: "length ?xs = sv_count content" by (rule sv_chars_length [OF wf])
  show ?case
  proof (cases "0 < sv_count content")
    case False
    then have "?xs = []" using len by simp
    then show ?thesis
      using conf_loop_stop [OF False] by (simp add: conf_lines_Nil)
  next
    case True
    let ?ch = "sv_chop_by_delim ?mem content NL"
    let ?line0 = "fst ?ch"
    let ?content' = "snd ?ch"
    let ?st' = "conf_line path row ?line0 st"
    let ?i = "length (takeWhile (\<lambda>c. c \<noteq> NL) ?xs)"
    let ?le = "sv_data content + ?i"
    note ch = sv_chop_by_delim_facts [OF wf, of NL]
    have i: "?i \<le> sv_count content"
      using length_takeWhile_le [of "\<lambda>c. c \<noteq> NL" ?xs] len by simp
    have line_end: "sv_data ?line0 + sv_count ?line0 = ?le"
      using ch(1) ch(2) by simp
    have le: "sv_data ?line0 + sv_count ?line0 < length ?mem"
      using line_end i e by simp
    have "set (sv_chars ?mem ?line0) \<subseteq> set ?xs"
      unfolding ch(3) by (auto dest: set_takeWhileD)
    then have nn0: "NUL \<notin> set (sv_chars ?mem ?line0)" using nn by auto
    have ok0: "path_ok ?mem (sv_data ?line0) (scan_vert st)"
      "path_ok ?mem (sv_data ?line0) (scan_frag st)"
      "path_ok ?mem (sv_data ?line0) (scan_texture st)"
      using ok ch(1) by simp_all
    note step = conf_line_step [OF le nn0 ok0, of path row]
    have view: "scan_view ?st' = line_step path row (takeWhile (\<lambda>c. c \<noteq> NL) ?xs) (scan_view st)"
      using step(1) ch(3) by simp
    have xs_ne: "?xs \<noteq> []" using True len by auto
    have lines: "conf_lines ?xs =
        takeWhile (\<lambda>c. c \<noteq> NL) ?xs # conf_lines (drop 1 (dropWhile (\<lambda>c. c \<noteq> NL) ?xs))"
      by (rule conf_lines_Cons [OF xs_ne])
    have loop: "conf_loop path row content st = conf_loop path (row + 1) ?content' ?st'"
      by (rule conf_loop_step [OF True])
    show ?thesis
    proof (cases "0 < sv_count ?content'")
      case False
      have "sv_chars ?mem ?content' = []"
        using False by (simp add: sv_chars_def)
      then have rest: "drop 1 (dropWhile (\<lambda>c. c \<noteq> NL) ?xs) = []"
        using ch(5) by simp
      have "conf_loop path (row + 1) ?content' ?st' = ?st'"
        by (rule conf_loop_stop [OF False])
      then show ?thesis
        unfolding loop lines rest by (simp add: view conf_lines_Nil)
    next
      case c': True
      have lt: "?i < sv_count content"
      proof (rule ccontr)
        assume "\<not> ?i < sv_count content"
        then have "sv_data ?content' = sv_data content + ?i" using ch(6) by simp
        then have "sv_count ?content' = 0" using ch(4) i \<open>\<not> ?i < sv_count content\<close> by simp
        with c' show False by simp
      qed
      then have data': "sv_data ?content' = Suc ?le" using ch(6) by simp
      have len': "length (scan_mem ?st') = length ?mem"
        using step(5) line_end by auto
      have chars': "sv_chars (scan_mem ?st') ?content' = sv_chars ?mem ?content'"
      proof -
        from step(5) line_end
        have "scan_mem ?st' = ?mem \<or> scan_mem ?st' = ?mem[?le := NUL]" by simp
        then show ?thesis
        proof
          assume "scan_mem ?st' = ?mem"
          then show ?thesis by simp
        next
          assume m: "scan_mem ?st' = ?mem[?le := NUL]"
          have "?le < sv_data ?content'" using data' by simp
          then show ?thesis unfolding m by (rule sv_chars_update_before)
        qed
      qed
      have "set (sv_chars ?mem ?content') \<subseteq> set ?xs"
      proof -
        have "set (sv_chars ?mem ?content') \<subseteq> set (dropWhile (\<lambda>c. c \<noteq> NL) ?xs)"
          unfolding ch(5) by (rule set_drop_subset)
        also have "\<dots> \<subseteq> set ?xs" by (auto dest: set_dropWhileD)
        finally show ?thesis .
      qed
      then have nn': "NUL \<notin> set (sv_chars (scan_mem ?st') ?content')"
        using nn chars' by auto
      have inv': "scan_inv ?content' ?st'"
        unfolding scan_inv_def
        using ch(4) e len' nn' step(2,3,4) line_end data' by simp
      have "scan_view (conf_loop path (row + 1) ?content' ?st') =
          scan_lines path (row + 1) (conf_lines (sv_chars (scan_mem ?st') ?content')) (scan_view ?st')"
        by (rule "1.IH" [OF True refl inv'])
      then show ?thesis
        unfolding loop lines chars' ch(5) by (simp add: view)
    qed
  qed
qed

lemma takeWhile_NUL_terminated:
  "takeWhile (\<lambda>c. c \<noteq> NUL) (bytes @ [NUL]) = takeWhile (\<lambda>c. c \<noteq> NUL) bytes"
  by (induction bytes) simp_all

lemma reload_render_conf_refines:
  assumes "read_file env (Some path) = Some bytes"
  shows "reload_result env path cf = Some (parse_conf path (takeWhile (\<lambda>c. c \<noteq> NUL) bytes))"
proof -
  let ?mem = "bytes @ [NUL]"
  let ?c = "takeWhile (\<lambda>c. c \<noteq> NUL) bytes"
  let ?content = "sv_from_cstr ?mem 0"
  let ?ini = "\<lparr>scan_mem = ?mem, scan_vert = None, scan_frag = None, scan_texture = None, scan_out = []\<rparr>"
  let ?st = "conf_loop path 0 ?content ?ini"
  have cstr: "cstr_at ?mem 0 = ?c"
    by (simp add: cstr_at_def takeWhile_NUL_terminated)
  have content: "?content = \<lparr>sv_count = length ?c, sv_data = 0\<rparr>"
    by (simp add: sv_from_cstr_def cstr)
  have lenc: "length ?c \<le> length bytes" by (rule length_takeWhile_le)
  have "sv_chars ?mem ?content = take (length ?c) (bytes @ [NUL])"
    by (simp add: content sv_chars_def)
  also have "\<dots> = take (length ?c) bytes" using lenc by simp
  also have "\<dots> = ?c" by (rule takeWhile_eq_take [symmetric])
  finally have chars: "sv_chars ?mem ?content = ?c" .
  have "NUL \<notin> set ?c" by (auto dest: set_takeWhileD)
  then have inv: "scan_inv ?content ?ini"
    using lenc chars by (simp add: scan_inv_def content path_ok_def)
  have view0: "scan_view ?ini = \<lparr>p_vert = None, p_frag = None, p_texture = None, p_out = []\<rparr>"
    by (simp add: scan_view_def)
  from conf_loop_refines [OF inv, of path 0]
  have view: "scan_view ?st = parse_conf path ?c"
    unfolding parse_conf_def view0 [symmetric] using chars by simp
  have slurp: "slurp_file_into_malloced_cstr env (Some path) = Some ?mem"
    using assms by (simp add: slurp_file_into_malloced_cstr_def)
  have "reload_result env path cf = Some (scan_view ?st)"
    unfolding reload_result_def reload_render_conf_def slurp
    by (simp add: Let_def scan_view_def path_string_def split: option.splits)
  then show ?thesis using view by simp
qed


subsection \<open>The paths as the last entries of their keys\<close>

lemma line_step_None: "line_entry l = None \<Longrightarrow> line_step path row l ps = ps"
  by (simp add: line_step_def)

lemma line_step_paths:
  assumes "line_entry l = Some (k, v)"
  shows "p_vert (line_step path row l ps) = (if k = ''vert'' then Some v else p_vert ps)"
    and "p_frag (line_step path row l ps) = (if k = ''frag'' then Some v else p_frag ps)"
    and "p_texture (line_step path row l ps) = (if k = ''texture'' then Some v else p_texture ps)"
  using assms by (simp_all add: line_step_def)

lemma map_of_rev_Cons:
  "map_of (rev ((k, v) # es)) k' =
     (case map_of (rev es) k' of Some x \<Rightarrow> Some x | None \<Rightarrow> if k = k' then Some v else None)"
  by (simp add: map_add_def split: option.splits)

lemma scan_lines_paths:
  "p_vert (scan_lines path row ls ps) =
     (case map_of (rev (List.map_filter line_entry ls)) ''vert'' of None \<Rightarrow> p_vert ps | Some v \<Rightarrow> Some v) \<and>
   p_frag (scan_lines path row ls ps) =
     (case map_of (rev (List.map_filter line_entry ls)) ''frag'' of None \<Rightarrow> p_frag ps | Some v \<Rightarrow> Some v) \<and>
   p_texture (scan_lines path row ls ps) =
     (case map_of (rev (List.map_filter line_entry ls)) ''texture'' of None \<Rightarrow> p_texture ps | Some v \<Rightarrow> Some v)"
proof (induction ls arbitrary: row ps)
  case Nil
  then show ?case by (simp add: map_filter_simps)
next
  case (Cons l ls)
  show ?case
  proof (cases "line_entry l")
    case None
    then show ?thesis
      using Cons.IH [of "row + 1" "line_step path row l ps"]
      by (simp add: map_filter_simps line_step_None split: option.splits)
  next
    case (Some e)
    obtain k v where e: "e = (k, v)" by (cases e)
    have mf: "List.map_filter line_entry (l # ls) = (k, v) # List.map_filter line_entry ls"
      using Some e by (simp add: map_filter_simps)
    show ?thesis
      unfolding mf map_of_rev_Cons
      using Cons.IH [of "row + 1" "line_step path row l ps"] line_step_paths [OF Some [unfolded e], of path row ps]
      by (simp split: option.splits)
  qed
qed

lemma parse_conf_paths:
  "p_vert (parse_conf path content) = map_of (rev (conf_entries content)) ''vert''"
  "p_frag (parse_conf path content) = map_of (rev (conf_entries content)) ''frag''"
  "p_texture (parse_conf path content) = map_of (rev (conf_entries content)) ''texture''"
  using scan_lines_paths [of path 0 "conf_lines content"
      "\<lparr>p_vert = None, p_frag = None, p_texture = None, p_out = []\<rparr>"]
  by (simp_all add: parse_conf_def conf_entries_def split: option.splits)

lemma map_of_rev_None: "k \<notin> fst ` set es \<Longrightarrow> map_of (rev es) k = None"
  by (simp add: map_of_eq_None_iff)

lemma line_step_out_mono: "set (p_out ps) \<subseteq> set (p_out (line_step path row l ps))"
  by (auto simp: line_step_def split: option.splits)

lemma scan_lines_out_mono: "set (p_out ps) \<subseteq> set (p_out (scan_lines path row ls ps))"
proof (induction ls arbitrary: row ps)
  case Nil
  then show ?case by simp
next
  case (Cons l ls)
  have "set (p_out ps) \<subseteq> set (p_out (line_step path row l ps))" by (rule line_step_out_mono)
  also have "\<dots> \<subseteq> set (p_out (scan_lines path (row + 1) ls (line_step path row l ps)))"
    by (rule Cons.IH)
  finally show ?case by simp
qed

lemma line_step_unknown:
  assumes "line_entry l = Some (k, v)" "k \<noteq> ''vert''" "k \<noteq> ''frag''" "k \<noteq> ''texture''"
  shows "line_step path row l ps =
     ps\<lparr>p_out := p_out ps @ [Stdout (Unsupported_Key path (sint row) (int (length (takeWhile isspace l))) k)]\<rparr>"
  using assms by (simp add: line_step_def)

lemma conf_lines_line:
  assumes "NL \<notin> set a"
  shows "conf_lines (a @ NL # rest) = a # conf_lines rest"
proof -
  have p: "\<And>x. x \<in> set a \<Longrightarrow> x \<noteq> NL" using assms by auto
  have t: "takeWhile (\<lambda>c. c \<noteq> NL) (a @ NL # rest) = a"
    using p by (simp add: takeWhile_append2)
  have d: "dropWhile (\<lambda>c. c \<noteq> NL) (a @ NL # rest) = NL # rest"
    using p by (simp add: dropWhile_append2)
  show ?thesis
    by (subst conf_lines.simps) (simp add: t d)
qed

lemma line_entry_vert: "line_entry (''vert = '' @ a) = Some (''vert'', trim_left a)"
  by (simp add: line_entry_def trim_left_def trim_def trim_right_def isspace_def Let_def)

lemma line_entry_frag: "line_entry (''frag = '' @ a) = Some (''frag'', trim_left a)"
  by (simp add: line_entry_def trim_left_def trim_def trim_right_def isspace_def Let_def)

lemma line_entry_texture: "line_entry (''texture = '' @ a) = Some (''texture'', trim_left a)"
  by (simp add: line_entry_def trim_left_def trim_def trim_right_def isspace_def Let_def)

lemma parse_conf_three_lines:
  assumes "NL \<notin> set a" "NL \<notin> set b" "NL \<notin> set c"
  shows "parse_conf path (''vert = '' @ a @ [NL] @ ''frag = '' @ b @ [NL] @ ''texture = '' @ c @ [NL]) =
     \<lparr>p_vert = Some (trim_left a), p_frag = Some (trim_left b), p_texture = Some (trim_left c),
      p_out = [Stdout (Vertex_Path (trim_left a)), Stdout (Fragment_Path (trim_left b)),
               Stdout (Texture_Path (trim_left c))]\<rparr>"
proof -
  have nl: "NL \<notin> set (''vert = '' @ a)" "NL \<notin> set (''frag = '' @ b)" "NL \<notin> set (''texture = '' @ c)"
    using assms by (simp_all add: NL_def)
  have shape: "''vert = '' @ a @ [NL] @ ''frag = '' @ b @ [NL] @ ''texture = '' @ c @ [NL] =
      (''vert = '' @ a) @ NL # ((''frag = '' @ b) @ NL # ((''texture = '' @ c) @ NL # []))"
    by simp
  have lines: "conf_lines ((''vert = '' @ a) @ NL # ((''frag = '' @ b) @ NL # ((''texture = '' @ c) @ NL # []))) =
      [''vert = '' @ a, ''frag = '' @ b, ''texture = '' @ c]"
    by (simp only: conf_lines_line [OF nl(1)] conf_lines_line [OF nl(2)] conf_lines_line [OF nl(3)]
          conf_lines_Nil)
  show ?thesis
    unfolding shape parse_conf_def lines scan_lines.simps line_step_def
      line_entry_vert line_entry_frag line_entry_texture
    by simp
qed

section \<open>The render configuration: properties\<close>

lemma takeWhile_no_NUL: "NUL \<notin> set bytes \<Longrightarrow> takeWhile (\<lambda>c. c \<noteq> NUL) bytes = bytes"
  by (induction bytes) auto

lemma reload_render_conf_Inr:
  assumes "reload_result env path cf = Some ps"
  shows "\<exists>cf' out. reload_render_conf env path cf = Inr (cf', out) \<and>
           path_string cf' (vert_path cf') = p_vert ps \<and>
           path_string cf' (frag_path cf') = p_frag ps \<and>
           path_string cf' (texture_path cf') = p_texture ps \<and>
           out = p_out ps \<and>
           (p_vert ps = None \<longrightarrow> vert_path cf' = None) \<and>
           (p_frag ps = None \<longrightarrow> frag_path cf' = None) \<and>
           (p_texture ps = None \<longrightarrow> texture_path cf' = None)"
proof (cases "reload_render_conf env path cf")
  case (Inl e)
  with assms show ?thesis by (simp add: reload_result_def)
next
  case (Inr r)
  obtain cf' out where r: "r = (cf', out)" by (cases r)
  have mem: "render_conf cf' \<noteq> None"
    using Inr r by (auto simp: reload_render_conf_def Let_def split: option.splits)
  have ps: "ps = \<lparr>p_vert = path_string cf' (vert_path cf'), p_frag = path_string cf' (frag_path cf'),
                   p_texture = path_string cf' (texture_path cf'), p_out = out\<rparr>"
    using assms Inr r by (simp add: reload_result_def)
  have null: "path_string cf' p = None \<Longrightarrow> p = None" for p
    using mem by (auto simp: path_string_def split: option.splits)
  show ?thesis
    using Inr r ps null by auto
qed

lemma env_with_conf_read:
  "read_file (env_with_conf bytes) (Some ''render.conf'') = Some bytes"
  by (simp add: env_with_conf_def)

lemma conf_lines_example: "conf_lines (''# c'' @ [NL] @ ''foo = bar'' @ [NL]) = [''# c'', ''foo = bar'']"
  by (simp add: conf_lines_Cons conf_lines_Nil NL_def)

lemma line_entry_example: "line_entry '' foo = bar '' = Some (''foo'', ''bar '')"
  by (simp add: line_entry_def trim_left_def trim_def trim_right_def isspace_def Let_def)

lemma takeWhile_NUL_example:
  "takeWhile (\<lambda>c. c \<noteq> NUL) (''frag = b'' @ [NL]) = ''frag = b'' @ [NL]"
  by (simp add: NUL_def NL_def)

lemma conf_entries_example: "conf_entries (''frag = b'' @ [NL]) = [(''frag'', ''b'')]"
  by (simp add: conf_entries_def conf_lines_Cons conf_lines_Nil NL_def map_filter_simps
        line_entry_def trim_left_def trim_def trim_right_def isspace_def Let_def)


lemma scan_lines_example:
  "scan_lines ''render.conf'' 0
     (conf_lines (takeWhile (\<lambda>c. c \<noteq> NUL)
        (''# c'' @ [NL] @ ''vert =  a.vert  '' @ [NL] @ '' foo = bar'' @ [NL] @ ''frag = b'' @ [NL] @
         ''texture = c'' @ [NL])))
     \<lparr>p_vert = None, p_frag = None, p_texture = None, p_out = []\<rparr> =
   \<lparr>p_vert = Some ''a.vert  '', p_frag = Some ''b'', p_texture = Some ''c'',
    p_out = [Stdout (Vertex_Path ''a.vert  ''), Stdout (Unsupported_Key ''render.conf'' 2 1 ''foo''),
             Stdout (Fragment_Path ''b''), Stdout (Texture_Path ''c'')]\<rparr>"
  by (simp add: NUL_def NL_def conf_lines_Cons conf_lines_Nil line_step_def
        line_entry_def trim_left_def trim_def trim_right_def isspace_def Let_def)



text \<open>
  Claim C10. A reload that reads its file returns, and each of the three paths then
  leads to the value of the last line of the new content that has its key; a path whose
  key is on no line of the new content is the null pointer, whatever it was before.
\<close>

theorem reload_conf_resets_paths:
  assumes "read_file env (Some render_conf_path) = Some bytes"
  shows "\<exists>cf' out. reload_render_conf env render_conf_path cf = Inr (cf', out) \<and>
     path_string cf' (vert_path cf') =
       map_of (rev (conf_entries (takeWhile (\<lambda>c. c \<noteq> NUL) bytes))) ''vert'' \<and>
     path_string cf' (frag_path cf') =
       map_of (rev (conf_entries (takeWhile (\<lambda>c. c \<noteq> NUL) bytes))) ''frag'' \<and>
     path_string cf' (texture_path cf') =
       map_of (rev (conf_entries (takeWhile (\<lambda>c. c \<noteq> NUL) bytes))) ''texture'' \<and>
     (''vert'' \<notin> fst ` set (conf_entries (takeWhile (\<lambda>c. c \<noteq> NUL) bytes)) \<longrightarrow> vert_path cf' = None) \<and>
     (''frag'' \<notin> fst ` set (conf_entries (takeWhile (\<lambda>c. c \<noteq> NUL) bytes)) \<longrightarrow> frag_path cf' = None) \<and>
     (''texture'' \<notin> fst ` set (conf_entries (takeWhile (\<lambda>c. c \<noteq> NUL) bytes)) \<longrightarrow> texture_path cf' = None)"
proof -
  let ?c = "takeWhile (\<lambda>c. c \<noteq> NUL) bytes"
  note res = reload_render_conf_Inr [OF reload_render_conf_refines [OF assms, of cf]]
  have none: "''vert'' \<notin> fst ` set (conf_entries ?c) \<Longrightarrow> p_vert (parse_conf render_conf_path ?c) = None"
    "''frag'' \<notin> fst ` set (conf_entries ?c) \<Longrightarrow> p_frag (parse_conf render_conf_path ?c) = None"
    "''texture'' \<notin> fst ` set (conf_entries ?c) \<Longrightarrow> p_texture (parse_conf render_conf_path ?c) = None"
    by (simp_all add: parse_conf_paths map_of_rev_None)
  from res show ?thesis
  proof (elim exE conjE)
    fix cf' out
    assume r: "reload_render_conf env render_conf_path cf = Inr (cf', out)"
      and p: "path_string cf' (vert_path cf') = p_vert (parse_conf render_conf_path ?c)"
        "path_string cf' (frag_path cf') = p_frag (parse_conf render_conf_path ?c)"
        "path_string cf' (texture_path cf') = p_texture (parse_conf render_conf_path ?c)"
      and n: "p_vert (parse_conf render_conf_path ?c) = None \<longrightarrow> vert_path cf' = None"
        "p_frag (parse_conf render_conf_path ?c) = None \<longrightarrow> frag_path cf' = None"
        "p_texture (parse_conf render_conf_path ?c) = None \<longrightarrow> texture_path cf' = None"
    show ?thesis
    proof (intro exI conjI impI)
      show "reload_render_conf env render_conf_path cf = Inr (cf', out)" by (rule r)
      show "path_string cf' (vert_path cf') = map_of (rev (conf_entries ?c)) ''vert''"
        using p(1) by (simp add: parse_conf_paths)
      show "path_string cf' (frag_path cf') = map_of (rev (conf_entries ?c)) ''frag''"
        using p(2) by (simp add: parse_conf_paths)
      show "path_string cf' (texture_path cf') = map_of (rev (conf_entries ?c)) ''texture''"
        using p(3) by (simp add: parse_conf_paths)
      show "vert_path cf' = None" if "''vert'' \<notin> fst ` set (conf_entries ?c)"
        using n(1) none(1) [OF that] by blast
      show "frag_path cf' = None" if "''frag'' \<notin> fst ` set (conf_entries ?c)"
        using n(2) none(2) [OF that] by blast
      show "texture_path cf' = None" if "''texture'' \<notin> fst ` set (conf_entries ?c)"
        using n(3) none(3) [OF that] by blast
    qed
  qed
qed

theorem reload_conf_resets_paths_witness:
  "\<exists>cf' out. reload_render_conf (env_with_conf (''frag = b'' @ [NL])) ''render.conf'' conf_example =
       Inr (cf', out) \<and>
     path_string cf' (frag_path cf') = Some ''b'' \<and> vert_path cf' = None \<and> texture_path cf' = None"
proof -
  note w = reload_conf_resets_paths [OF env_with_conf_read [of "''frag = b'' @ [NL]"], of conf_example]
  show ?thesis
    using w unfolding takeWhile_NUL_example conf_entries_example by auto
qed

text \<open>
  Claim C8, as stated, fails on the trimming of the values: only the white space before
  a value is removed. For the content of the claim with one space behind the first
  value, the line \<open>vert = shaders/a.vert \<close>, the vertex path is the value with
  that space at its end.
\<close>

theorem reload_conf_trailing_space_example:
  "reload_result
     (env_with_conf (''vert = shaders/a.vert '' @ [NL] @ ''frag = shaders/a.frag'' @ [NL] @
                     ''texture = img/a.png'' @ [NL]))
     ''render.conf'' conf_init =
   Some \<lparr>p_vert = Some ''shaders/a.vert '', p_frag = Some ''shaders/a.frag'',
         p_texture = Some ''img/a.png'',
         p_out = [Stdout (Vertex_Path ''shaders/a.vert ''), Stdout (Fragment_Path ''shaders/a.frag''),
                  Stdout (Texture_Path ''img/a.png'')]\<rparr>"
proof -
  let ?bytes = "''vert = '' @ ''shaders/a.vert '' @ [NL] @ ''frag = '' @ ''shaders/a.frag'' @ [NL] @
                ''texture = '' @ ''img/a.png'' @ [NL]"
  have b: "''vert = shaders/a.vert '' @ [NL] @ ''frag = shaders/a.frag'' @ [NL] @
           ''texture = img/a.png'' @ [NL] = ?bytes" by simp
  have n: "takeWhile (\<lambda>c. c \<noteq> NUL) ?bytes = ?bytes"
    by (rule takeWhile_no_NUL) (simp add: NUL_def NL_def)
  have nl: "NL \<notin> set ''shaders/a.vert ''" "NL \<notin> set ''shaders/a.frag''" "NL \<notin> set ''img/a.png''"
    by (simp_all add: NL_def)
  have t: "trim_left ''shaders/a.vert '' = ''shaders/a.vert ''"
    "trim_left ''shaders/a.frag'' = ''shaders/a.frag''"
    "trim_left ''img/a.png'' = ''img/a.png''"
    by (simp_all add: trim_left_def isspace_def)
  show ?thesis
    unfolding b reload_render_conf_refines [OF env_with_conf_read] n parse_conf_three_lines [OF nl] t ..
qed

text \<open>
  Claim C8, amended. The result of a reload that reads its file is the scan of the lines
  of the content, row by row from row 0. For a content of the three lines
  \<open>vert = a\<close>, \<open>frag = b\<close>, \<open>texture = c\<close> the three paths are
  a, b and c with their leading white space removed and their trailing white space
  kept, and the three paths are printed. A line with another key prints the warning with
  the file, the row and the column of the key, changes none of the three paths and is
  not fatal; a line that is empty or starts with \<open>#\<close> after its leading white
  space changes nothing.
\<close>

theorem reload_conf_parses_lines:
  "(read_file env (Some render_conf_path) = Some bytes \<longrightarrow>
      reload_result env render_conf_path cf =
        Some (scan_lines render_conf_path 0 (conf_lines (takeWhile (\<lambda>c. c \<noteq> NUL) bytes))
                \<lparr>p_vert = None, p_frag = None, p_texture = None, p_out = []\<rparr>)) \<and>
   (NL \<notin> set a \<and> NL \<notin> set b \<and> NL \<notin> set c \<and> NUL \<notin> set a \<and> NUL \<notin> set b \<and> NUL \<notin> set c \<and>
    read_file env (Some render_conf_path) =
      Some (''vert = '' @ a @ [NL] @ ''frag = '' @ b @ [NL] @ ''texture = '' @ c @ [NL]) \<longrightarrow>
      reload_result env render_conf_path cf =
        Some \<lparr>p_vert = Some (trim_left a), p_frag = Some (trim_left b), p_texture = Some (trim_left c),
              p_out = [Stdout (Vertex_Path (trim_left a)), Stdout (Fragment_Path (trim_left b)),
                       Stdout (Texture_Path (trim_left c))]\<rparr>) \<and>
   (line_entry line = Some (k, v) \<and> k \<noteq> ''vert'' \<and> k \<noteq> ''frag'' \<and> k \<noteq> ''texture'' \<longrightarrow>
      line_step render_conf_path row line ps =
        ps\<lparr>p_out := p_out ps @
             [Stdout (Unsupported_Key render_conf_path (sint row) (int (length (takeWhile isspace line))) k)]\<rparr>) \<and>
   (trim_left line = [] \<or> hd (trim_left line) = CHR ''#'' \<longrightarrow>
      line_step render_conf_path row line ps = ps) \<and>
   trim_left s = dropWhile isspace s"
proof (intro conjI impI)
  assume r: "read_file env (Some render_conf_path) = Some bytes"
  show "reload_result env render_conf_path cf =
        Some (scan_lines render_conf_path 0 (conf_lines (takeWhile (\<lambda>c. c \<noteq> NUL) bytes))
                \<lparr>p_vert = None, p_frag = None, p_texture = None, p_out = []\<rparr>)"
    using reload_render_conf_refines [OF r, of cf] by (simp add: parse_conf_def)
next
  assume a: "NL \<notin> set a \<and> NL \<notin> set b \<and> NL \<notin> set c \<and> NUL \<notin> set a \<and> NUL \<notin> set b \<and> NUL \<notin> set c \<and>
    read_file env (Some render_conf_path) =
      Some (''vert = '' @ a @ [NL] @ ''frag = '' @ b @ [NL] @ ''texture = '' @ c @ [NL])"
  let ?bytes = "''vert = '' @ a @ [NL] @ ''frag = '' @ b @ [NL] @ ''texture = '' @ c @ [NL]"
  from a have r: "read_file env (Some render_conf_path) = Some ?bytes" by blast
  from a have "NUL \<notin> set ?bytes" by (simp add: NUL_def NL_def)
  then have c: "takeWhile (\<lambda>c. c \<noteq> NUL) ?bytes = ?bytes" by (rule takeWhile_no_NUL)
  from a have nl: "NL \<notin> set a" "NL \<notin> set b" "NL \<notin> set c" by blast+
  show "reload_result env render_conf_path cf =
        Some \<lparr>p_vert = Some (trim_left a), p_frag = Some (trim_left b), p_texture = Some (trim_left c),
              p_out = [Stdout (Vertex_Path (trim_left a)), Stdout (Fragment_Path (trim_left b)),
                       Stdout (Texture_Path (trim_left c))]\<rparr>"
    unfolding reload_render_conf_refines [OF r] c parse_conf_three_lines [OF nl] ..
next
  assume "line_entry line = Some (k, v) \<and> k \<noteq> ''vert'' \<and> k \<noteq> ''frag'' \<and> k \<noteq> ''texture''"
  then show "line_step render_conf_path row line ps =
        ps\<lparr>p_out := p_out ps @
             [Stdout (Unsupported_Key render_conf_path (sint row) (int (length (takeWhile isspace line))) k)]\<rparr>"
    using line_step_unknown [of line k v render_conf_path row ps] by blast
next
  assume "trim_left line = [] \<or> hd (trim_left line) = CHR ''#''"
  then have "line_entry line = None" by (simp add: line_entry_def Let_def)
  then show "line_step render_conf_path row line ps = ps" by (rule line_step_None)
next
  show "trim_left s = dropWhile isspace s" by (rule trim_left_def)
qed

theorem reload_conf_parses_lines_witness:
  "reload_result
     (env_with_conf (''# c'' @ [NL] @ ''vert =  a.vert  '' @ [NL] @ '' foo = bar'' @ [NL] @
                     ''frag = b'' @ [NL] @ ''texture = c'' @ [NL]))
     ''render.conf'' conf_init =
   Some \<lparr>p_vert = Some ''a.vert  '', p_frag = Some ''b'', p_texture = Some ''c'',
         p_out = [Stdout (Vertex_Path ''a.vert  ''), Stdout (Unsupported_Key ''render.conf'' 2 1 ''foo''),
                  Stdout (Fragment_Path ''b''), Stdout (Texture_Path ''c'')]\<rparr> \<and>
   reload_result
     (env_with_conf (''vert = '' @ ''shaders/a.vert'' @ [NL] @ ''frag = '' @ ''shaders/a.frag'' @ [NL] @
                     ''texture = '' @ ''img/a.png'' @ [NL]))
     ''render.conf'' conf_init =
   Some \<lparr>p_vert = Some (trim_left ''shaders/a.vert''), p_frag = Some (trim_left ''shaders/a.frag''),
         p_texture = Some (trim_left ''img/a.png''),
         p_out = [Stdout (Vertex_Path (trim_left ''shaders/a.vert'')),
                  Stdout (Fragment_Path (trim_left ''shaders/a.frag'')),
                  Stdout (Texture_Path (trim_left ''img/a.png''))]\<rparr> \<and>
   line_step ''render.conf'' 2 '' foo = bar ''
       \<lparr>p_vert = None, p_frag = None, p_texture = None, p_out = []\<rparr> =
     \<lparr>p_vert = None, p_frag = None, p_texture = None, p_out = []\<rparr>
       \<lparr>p_out := p_out \<lparr>p_vert = None, p_frag = None, p_texture = None, p_out = []\<rparr> @
          [Stdout (Unsupported_Key ''render.conf'' 2 (int (length (takeWhile isspace '' foo = bar ''))) ''foo'')]\<rparr> \<and>
   line_step ''render.conf'' 0 ''# c''
       \<lparr>p_vert = None, p_frag = None, p_texture = None, p_out = []\<rparr> =
     \<lparr>p_vert = None, p_frag = None, p_texture = None, p_out = []\<rparr>"
proof -
  let ?ps = "\<lparr>p_vert = None, p_frag = None, p_texture = None, p_out = []\<rparr>"
  let ?b1 = "''# c'' @ [NL] @ ''vert =  a.vert  '' @ [NL] @ '' foo = bar'' @ [NL] @
             ''frag = b'' @ [NL] @ ''texture = c'' @ [NL]"
  let ?b2 = "''vert = '' @ ''shaders/a.vert'' @ [NL] @ ''frag = '' @ ''shaders/a.frag'' @ [NL] @
             ''texture = '' @ ''img/a.png'' @ [NL]"
  note t1 = reload_conf_parses_lines [where env = "env_with_conf ?b1" and render_conf_path = "''render.conf''"
      and bytes = ?b1 and cf = conf_init]
  note t2 = reload_conf_parses_lines [where env = "env_with_conf ?b2" and render_conf_path = "''render.conf''"
      and a = "''shaders/a.vert''" and b = "''shaders/a.frag''" and c = "''img/a.png''" and cf = conf_init
      and line = "'' foo = bar ''" and k = "''foo''" and v = "''bar ''" and row = 2 and ps = ?ps]
  note t3 = reload_conf_parses_lines [where render_conf_path = "''render.conf''"
      and line = "''# c''" and row = 0 and ps = ?ps]
  have h2: "NL \<notin> set ''shaders/a.vert'' \<and> NL \<notin> set ''shaders/a.frag'' \<and> NL \<notin> set ''img/a.png'' \<and>
      NUL \<notin> set ''shaders/a.vert'' \<and> NUL \<notin> set ''shaders/a.frag'' \<and> NUL \<notin> set ''img/a.png'' \<and>
      read_file (env_with_conf ?b2) (Some ''render.conf'') = Some ?b2"
    by (simp add: NL_def NUL_def env_with_conf_read)
  have h3: "line_entry '' foo = bar '' = Some (''foo'', ''bar '') \<and> ''foo'' \<noteq> ''vert'' \<and>
      ''foo'' \<noteq> ''frag'' \<and> ''foo'' \<noteq> ''texture''"
    by (simp add: line_entry_example)
  have h4: "trim_left ''# c'' = [] \<or> hd (trim_left ''# c'') = CHR ''#''"
    by (simp add: trim_left_def isspace_def)
  have c1: "reload_result (env_with_conf ?b1) ''render.conf'' conf_init =
      Some (scan_lines ''render.conf'' 0 (conf_lines (takeWhile (\<lambda>c. c \<noteq> NUL) ?b1)) ?ps)"
    by (rule t1 [THEN conjunct1, THEN mp, OF env_with_conf_read])
  have c2: "reload_result (env_with_conf ?b2) ''render.conf'' conf_init =
      Some \<lparr>p_vert = Some (trim_left ''shaders/a.vert''), p_frag = Some (trim_left ''shaders/a.frag''),
            p_texture = Some (trim_left ''img/a.png''),
            p_out = [Stdout (Vertex_Path (trim_left ''shaders/a.vert'')),
                     Stdout (Fragment_Path (trim_left ''shaders/a.frag'')),
                     Stdout (Texture_Path (trim_left ''img/a.png''))]\<rparr>"
    by (rule t2 [THEN conjunct2, THEN conjunct1, THEN mp, OF h2])
  have s2: "sint (2 :: 32 word) = 2" by simp
  have c3: "line_step ''render.conf'' 2 '' foo = bar '' ?ps =
      ?ps\<lparr>p_out := p_out ?ps @
          [Stdout (Unsupported_Key ''render.conf'' 2 (int (length (takeWhile isspace '' foo = bar ''))) ''foo'')]\<rparr>"
    using t2 [THEN conjunct2, THEN conjunct2, THEN conjunct1, THEN mp, OF h3]
    unfolding s2 .
  have c4: "line_step ''render.conf'' 0 ''# c'' ?ps = ?ps"
    by (rule t3 [THEN conjunct2, THEN conjunct2, THEN conjunct2, THEN conjunct1, THEN mp, OF h4])
  show ?thesis
    using c1 [unfolded scan_lines_example] c2 c3 c4 by (intro conjI)
qed

end
